theory Spec2Isabelle
  imports Complex_Main "HOL-Library.Sublist"
begin

section \<open>JavaScript numbers\<close>

text \<open>
  A JavaScript number is an IEEE 754 double. Finite doubles are modelled by the real
  numbers they denote (\<open>Num\<close>), beside the two infinities and \<open>NaN\<close>; the sign of zero
  is not tracked. The result of an arithmetic operation on finite doubles is the exact
  result rounded to the nearest double, ties to the even significand, by
  \<open>round_double\<close>: \<open>quantum x\<close> is the distance between neighbouring doubles at the
  magnitude of \<open>x\<close> (53 significant bits, least exponent \<open>-1022\<close>), and a result of
  magnitude \<open>2^1024\<close> or more overflows to an infinity.
\<close>

datatype jsnum = Num real | PosInf | NegInf | NaN

definition round_half_even :: "real \<Rightarrow> int" where
  "round_half_even m =
     (let f = \<lfloor>m\<rfloor>; d = m - of_int f
      in if d < 1 / 2 then f else if 1 / 2 < d then f + 1 else if even f then f else f + 1)"

definition quantum :: "real \<Rightarrow> real" where
  "quantum x = 2 powr (of_int (max \<lfloor>log 2 \<bar>x\<bar>\<rfloor> (- 1022)) - 52)"

definition round_double :: "real \<Rightarrow> jsnum" where
  "round_double x =
     (if x = 0 then Num 0
      else let q = quantum x; r = of_int (round_half_even (x / q)) * q
           in if 2 powr 1024 \<le> \<bar>r\<bar> then (if 0 < x then PosInf else NegInf) else Num r)"

fun js_plus :: "jsnum \<Rightarrow> jsnum \<Rightarrow> jsnum" where
  "js_plus (Num a) (Num b) = round_double (a + b)"
| "js_plus NaN y = NaN"
| "js_plus x NaN = NaN"
| "js_plus PosInf NegInf = NaN"
| "js_plus NegInf PosInf = NaN"
| "js_plus PosInf y = PosInf"
| "js_plus NegInf y = NegInf"
| "js_plus x PosInf = PosInf"
| "js_plus x NegInf = NegInf"

fun js_neg :: "jsnum \<Rightarrow> jsnum" where
  "js_neg (Num a) = Num (- a)"
| "js_neg PosInf = NegInf"
| "js_neg NegInf = PosInf"
| "js_neg NaN = NaN"

definition js_minus :: "jsnum \<Rightarrow> jsnum \<Rightarrow> jsnum" where
  "js_minus x y = js_plus x (js_neg y)"

text \<open>The sign of a number that is not \<open>NaN\<close>: \<open>-1\<close>, \<open>0\<close> or \<open>1\<close>.\<close>

fun js_sign :: "jsnum \<Rightarrow> int" where
  "js_sign (Num a) = (if a < 0 then - 1 else if a = 0 then 0 else 1)"
| "js_sign PosInf = 1"
| "js_sign NegInf = - 1"
| "js_sign NaN = 0"

fun js_times :: "jsnum \<Rightarrow> jsnum \<Rightarrow> jsnum" where
  "js_times (Num a) (Num b) = round_double (a * b)"
| "js_times NaN y = NaN"
| "js_times x NaN = NaN"
| "js_times x y =
     (if js_sign x * js_sign y = 0 then NaN
      else if js_sign x * js_sign y > 0 then PosInf else NegInf)"

text \<open>
  \<open>old + amount\<close> where \<open>old\<close> was read from an object and may be \<open>undefined\<close>
  (\<open>None\<close>): \<open>undefined + n\<close> is \<open>NaN\<close>.
\<close>

fun js_add :: "jsnum option \<Rightarrow> jsnum \<Rightarrow> jsnum" where
  "js_add None n = NaN"
| "js_add (Some x) n = js_plus x n"

text \<open>
  The test \<^verbatim>\<open>!prop\<close> on what was read from a dictionary of numbers: \<open>undefined\<close>,
  zero and \<open>NaN\<close> are falsy.
\<close>

fun falsy :: "jsnum option \<Rightarrow> bool" where
  "falsy None = True"
| "falsy (Some (Num a)) = (a = 0)"
| "falsy (Some NaN) = True"
| "falsy (Some x) = False"

text \<open>
  The messaging specification declares \<open>price\<close>, \<open>volume\<close>, \<open>traded_volume\<close> and
  \<open>order_id\<close> as integers and \<open>timestamp\<close> as a float. The integer fields are kept as
  \<open>int\<close>; \<open>num_of_int\<close> is the number that such a field is in the component, the double
  nearest to the integer. Timestamps are only compared, so they are modelled by \<open>real\<close>
  (for finite doubles the sign of a difference is the result of the comparison).
\<close>

definition num_of_int :: "int \<Rightarrow> jsnum" where
  "num_of_int k = round_double (of_int k)"

section \<open>Data model of the trader-state component\<close>

record order =
  timestamp :: real
  price :: int
  volume :: int
  is_bid :: bool
  pcode :: string
  traded_volume :: int
  order_id :: int
  asset_name :: string

text \<open>
  The payload of \<open>confirm_trade\<close>, which is also the shape of the trade object stored in
  the trades list. Its \<open>timestamp\<close> and \<open>asset_name\<close> fields carry the prefix
  \<open>trade_\<close> here, since a field name belongs to one record only.
\<close>

record trade =
  trade_timestamp :: real
  trade_asset_name :: string
  taking_order :: order
  making_orders :: "order list"

text \<open>The payload of an \<open>error\<close> message: its fields \<open>pcode\<close> and \<open>message\<close>.\<close>

record error_payload =
  err_pcode :: string
  err_message :: string

datatype payload = POrder order | PTrade trade | PError error_payload

record message =
  msg_type :: string
  msg_payload :: payload

text \<open>
  What the component's own code lets the outside see: console warnings and the events it
  dispatches. (The change notifications of the framework are not part of the trace.)
\<close>

datatype event =
  ConfirmOrderEnter order
| ConfirmTrade trade
| ConfirmOrderCancel order
| ErrorEvent string

datatype effect = Warn int string | Dispatched event

text \<open>
  The properties of \<open>TraderState\<close> that the handlers read and write. \<open>this_pcode\<close> is
  \<open>this.pcode\<close>, the participant code of the viewer; \<open>emitted\<close> is the trace of
  warnings and events, oldest first. The two dictionaries map asset names to numbers; a
  name that is no key reads as \<open>undefined\<close> (\<open>None\<close>).
\<close>

record trader_state =
  this_pcode :: string
  bids :: "order list"
  asks :: "order list"
  trades :: "trade list"
  settledAssetsDict :: "string \<rightharpoonup> jsnum"
  availableAssetsDict :: "string \<rightharpoonup> jsnum"
  settledCash :: jsnum
  availableCash :: jsnum
  emitted :: "effect list"

datatype dict_property = AvailableAssetsDict | SettledAssetsDict

section \<open>Errors\<close>

text \<open>
  \<open>InvalidMessageType\<close> is the string thrown by \<open>_on_message\<close>. \<open>TypeError\<close> is thrown
  by the runtime: when \<^verbatim>\<open>handler.call\<close> is not a function, when an inherited
  function rejects its arguments, and when a property is assigned on a number (the
  framework's modules are strict code). Two more values are no errors of the code but
  mark where this model ends: \<open>PayloadShape\<close>, a payload that is not of the shape the
  messaging specification gives the message type, and \<open>OutsideModel\<close>, an asset name that
  reaches a member inherited from \<^verbatim>\<open>Object.prototype\<close> or
  \<^verbatim>\<open>Number.prototype\<close>, where the values are functions and strings.

  An error leaves the state as it is at the throw: what the handler has written before
  stays written. An outcome is the state after a handler that returned (\<open>Inr\<close>), or the
  error with the state at the throw (\<open>Inl\<close>).
\<close>

datatype error = InvalidMessageType string | TypeError | PayloadShape | OutsideModel

type_synonym outcome = "(error \<times> trader_state) + trader_state"

definition and_then :: "outcome \<Rightarrow> (trader_state \<Rightarrow> outcome) \<Rightarrow> outcome" where
  "and_then r f = (case r of Inl e \<Rightarrow> Inl e | Inr s \<Rightarrow> f s)"

definition state_of :: "outcome \<Rightarrow> trader_state" where
  "state_of r = (case r of Inl (e, s) \<Rightarrow> s | Inr s \<Rightarrow> s)"

section \<open>Array helpers\<close>

text \<open>
  The scanning loop \<^verbatim>\<open>for (; i < xs.length; i++) if (stop(xs[i])) break;\<close>
  started at index \<open>i\<close>; its value is the index when the loop is left.
\<close>

function scan :: "('a \<Rightarrow> bool) \<Rightarrow> 'a list \<Rightarrow> nat \<Rightarrow> nat" where
  "scan stop xs i =
     (if i < length xs then (if stop (xs ! i) then i else scan stop xs (i + 1)) else i)"
  by pat_completeness auto
termination
  by (relation "measure (\<lambda>(stop, xs, i). length xs - i)") auto

declare scan.simps [simp del]

text \<open>
  The same loop where the index may never have been assigned (\<^verbatim>\<open>let i;\<close>): the
  guard \<^verbatim>\<open>undefined < xs.length\<close> is false, the body never runs and the index
  stays \<open>undefined\<close>.
\<close>

definition scan_from :: "('a \<Rightarrow> bool) \<Rightarrow> 'a list \<Rightarrow> nat option \<Rightarrow> nat option" where
  "scan_from stop xs start = (case start of None \<Rightarrow> None | Some i \<Rightarrow> Some (scan stop xs i))"

text \<open>
  \<^verbatim>\<open>this.splice(name, start, 0, x)\<close>: insertion of \<open>x\<close> before index \<open>start\<close>.
  An \<open>undefined\<close> start is converted to \<open>0\<close> by \<^verbatim>\<open>Array.prototype.splice\<close>; a
  start beyond the end appends.
\<close>

definition splice_insert :: "'a list \<Rightarrow> nat option \<Rightarrow> 'a \<Rightarrow> 'a list" where
  "splice_insert xs start x =
     (let i = (case start of None \<Rightarrow> 0 | Some i \<Rightarrow> i) in take i xs @ x # drop i xs)"

text \<open>\<^verbatim>\<open>this.splice(name, i, 1)\<close>: removal of the element at index \<open>i\<close>.\<close>

definition splice_delete :: "'a list \<Rightarrow> nat \<Rightarrow> 'a list" where
  "splice_delete xs i = take i xs @ drop (i + 1) xs"

definition dispatchEvent :: "event \<Rightarrow> trader_state \<Rightarrow> trader_state" where
  "dispatchEvent ev s = s\<lparr>emitted := emitted s @ [Dispatched ev]\<rparr>"

section \<open>Paths into the dictionaries\<close>

text \<open>
  \<open>_update_subproperty\<close> reads and writes through \<^verbatim>\<open>this.get([property, key])\<close> and
  \<^verbatim>\<open>this.set([property, key], value)\<close>. The framework joins the path and splits it
  again at every dot, so a key with a dot is a path of several parts; \<open>split_dots\<close> is
  \<^verbatim>\<open>key.split('.')\<close>.
\<close>

fun split_dots :: "string \<Rightarrow> string list" where
  "split_dots [] = [[]]"
| "split_dots (c # cs) =
     (if c = CHR ''.'' then [] # split_dots cs
      else (case split_dots cs of [] \<Rightarrow> [[c]] | p # ps \<Rightarrow> (c # p) # ps))"

text \<open>The names that every object inherits, and those that a number inherits.\<close>

definition object_prototype_names :: "string list" where
  "object_prototype_names =
     [''constructor'', ''toString'', ''toLocaleString'', ''valueOf'', ''hasOwnProperty'',
      ''isPrototypeOf'', ''propertyIsEnumerable'', ''__defineGetter__'', ''__defineSetter__'',
      ''__lookupGetter__'', ''__lookupSetter__'', ''__proto__'']"

definition number_prototype_names :: "string list" where
  "number_prototype_names =
     object_prototype_names @ [''toExponential'', ''toFixed'', ''toPrecision'']"

text \<open>
  Whether the walk along the parts meets an inherited member: at the first part when it
  is no key of the dictionary but a name that objects inherit, at the second part when
  the first part holds a truthy number and the second is a name that numbers inherit.
\<close>

fun inherited_reached :: "(string \<rightharpoonup> jsnum) \<Rightarrow> string list \<Rightarrow> bool" where
  "inherited_reached d [] = False"
| "inherited_reached d [p] = (d p = None \<and> p \<in> set object_prototype_names)"
| "inherited_reached d (p1 # p2 # rest) =
     ((d p1 = None \<and> p1 \<in> set object_prototype_names)
      \<or> (\<not> falsy (d p1) \<and> p2 \<in> set number_prototype_names))"

text \<open>
  The framework's \<open>get\<close> below the dictionary: one part reads the entry; with more
  parts the walk passes through the entry of the first part, which is \<open>undefined\<close> or
  a number, and a number has no property of its own, so the result is \<open>undefined\<close>.
\<close>

fun path_get :: "(string \<rightharpoonup> jsnum) \<Rightarrow> string list \<Rightarrow> jsnum option" where
  "path_get d [p] = d p"
| "path_get d parts = None"

text \<open>
  The framework's \<open>set\<close> below the dictionary: one part writes the entry. With more
  parts it walks to the last but one and returns without writing as soon as what it
  reads is falsy; with two parts and a truthy number under the first, the assignment of
  a property on that number throws.
\<close>

fun path_set :: "(string \<rightharpoonup> jsnum) \<Rightarrow> string list \<Rightarrow> jsnum \<Rightarrow> error + (string \<rightharpoonup> jsnum)" where
  "path_set d [] v = Inr d"
| "path_set d [p] v = Inr (d(p \<mapsto> v))"
| "path_set d (p1 # p2 # rest) v =
     (if falsy (d p1) then Inr d else if rest = [] then Inl TypeError else Inr d)"

section \<open>Holdings\<close>

definition update_subproperty ::
  "dict_property \<Rightarrow> string \<Rightarrow> jsnum \<Rightarrow> trader_state \<Rightarrow> outcome" where
  "update_subproperty property subproperty amount s =
     (let d = (case property of
                 AvailableAssetsDict \<Rightarrow> availableAssetsDict s
               | SettledAssetsDict \<Rightarrow> settledAssetsDict s);
          parts = split_dots subproperty
      in if inherited_reached d parts then Inl (OutsideModel, s)
         else
           (let old = path_get d parts
            in case path_set d parts (js_add old amount) of
                 Inl e \<Rightarrow> Inl (e, s)
               | Inr d' \<Rightarrow>
                   Inr (case property of
                          AvailableAssetsDict \<Rightarrow> s\<lparr>availableAssetsDict := d'\<rparr>
                        | SettledAssetsDict \<Rightarrow> s\<lparr>settledAssetsDict := d'\<rparr>)))"

definition update_holdings :: "jsnum \<Rightarrow> jsnum \<Rightarrow> bool \<Rightarrow> string \<Rightarrow> trader_state \<Rightarrow> outcome" where
  "update_holdings price' volume' is_bid' asset_name' s =
     (if is_bid' then
        and_then (update_subproperty AvailableAssetsDict asset_name' volume' s) (\<lambda>s1.
        and_then (update_subproperty SettledAssetsDict asset_name' volume' s1) (\<lambda>s2.
          let s3 = s2\<lparr>availableCash := js_minus (availableCash s2) (js_times price' volume')\<rparr>
          in Inr (s3\<lparr>settledCash := js_minus (settledCash s3) (js_times price' volume')\<rparr>)))
      else
        and_then (update_subproperty AvailableAssetsDict asset_name' (js_neg volume') s) (\<lambda>s1.
        and_then (update_subproperty SettledAssetsDict asset_name' (js_neg volume') s1) (\<lambda>s2.
          let s3 = s2\<lparr>availableCash := js_plus (availableCash s2) (js_times price' volume')\<rparr>
          in Inr (s3\<lparr>settledCash := js_plus (settledCash s3) (js_times price' volume')\<rparr>))))"

section \<open>Order books\<close>

definition remove_order :: "order \<Rightarrow> trader_state \<Rightarrow> trader_state" where
  "remove_order ord s =
     (let order_store_name = (if is_bid ord then ''bids'' else ''asks'');
          order_store = (if is_bid ord then bids s else asks s);
          i = scan (\<lambda>x. order_id x = order_id ord) order_store 0
      in if i \<ge> length order_store
         then s\<lparr>emitted := emitted s @ [Warn (order_id ord) order_store_name]\<rparr>
         else if is_bid ord then s\<lparr>bids := splice_delete (bids s) i\<rparr>
         else s\<lparr>asks := splice_delete (asks s) i\<rparr>)"

definition compare_orders :: "order \<Rightarrow> order \<Rightarrow> real" where
  "compare_orders o1 o2 =
     (if price o1 = price o2 then - (timestamp o1 - timestamp o2)
      else of_int (price o1 - price o2))"

definition insert_bid :: "order \<Rightarrow> trader_state \<Rightarrow> trader_state" where
  "insert_bid ord s =
     (let i = scan (\<lambda>b. compare_orders b ord < 0) (bids s) 0;
          s1 = s\<lparr>bids := splice_insert (bids s) (Some i) ord\<rparr>
      in if pcode ord = this_pcode s1
         then s1\<lparr>availableCash :=
                  js_minus (availableCash s1)
                    (js_times (num_of_int (price ord)) (num_of_int (volume ord)))\<rparr>
         else s1)"

definition insert_ask :: "order \<Rightarrow> trader_state \<Rightarrow> outcome" where
  "insert_ask ord s =
     (let i = scan (\<lambda>a. compare_orders a ord > 0) (asks s) 0;
          s1 = s\<lparr>asks := splice_insert (asks s) (Some i) ord\<rparr>
      in if pcode ord = this_pcode s1
         then update_subproperty AvailableAssetsDict (asset_name ord)
                (js_neg (num_of_int (volume ord))) s1
         else Inr s1)"

section \<open>Message handlers\<close>

definition handle_confirm_enter :: "order \<Rightarrow> trader_state \<Rightarrow> outcome" where
  "handle_confirm_enter ord s =
     and_then (if is_bid ord then Inr (insert_bid ord s) else insert_ask ord s) (\<lambda>s1.
       Inr (dispatchEvent (ConfirmOrderEnter ord) s1))"

text \<open>One iteration of the loop over \<open>msg.making_orders\<close>.\<close>

definition trade_leg :: "order \<Rightarrow> trader_state \<Rightarrow> order \<Rightarrow> outcome" where
  "trade_leg taking s making_order =
     and_then
       (if pcode making_order = this_pcode s
        then update_holdings (num_of_int (price making_order))
               (num_of_int (traded_volume making_order))
               (is_bid making_order) (asset_name making_order) s
        else Inr s) (\<lambda>s1.
     and_then
       (if pcode taking = this_pcode s1
        then update_holdings (num_of_int (price making_order))
               (num_of_int (traded_volume making_order))
               (is_bid taking) (asset_name taking) s1
        else Inr s1) (\<lambda>s2.
       Inr (remove_order making_order s2)))"

text \<open>The loop: an error in one iteration ends it.\<close>

fun trade_legs :: "order \<Rightarrow> order list \<Rightarrow> trader_state \<Rightarrow> outcome" where
  "trade_legs taking [] s = Inr s"
| "trade_legs taking (m # ms) s = and_then (trade_leg taking s m) (trade_legs taking ms)"

definition handle_confirm_trade :: "trade \<Rightarrow> trader_state \<Rightarrow> outcome" where
  "handle_confirm_trade msg s =
     and_then (trade_legs (taking_order msg) (making_orders msg) s) (\<lambda>s1.
       let trade' = \<lparr>trade_timestamp = trade_timestamp msg,
                     trade_asset_name = trade_asset_name msg,
                     taking_order = taking_order msg,
                     making_orders = making_orders msg\<rparr>;
           i = scan_from (\<lambda>t. trade_timestamp t > trade_timestamp msg) (trades s1) None;
           s2 = s1\<lparr>trades := splice_insert (trades s1) i trade'\<rparr>
       in Inr (dispatchEvent (ConfirmTrade trade') s2))"

definition handle_confirm_cancel :: "order \<Rightarrow> trader_state \<Rightarrow> outcome" where
  "handle_confirm_cancel ord s =
     (let s1 = remove_order ord s
      in and_then
           (if pcode ord = this_pcode s1 then
              (if is_bid ord
               then Inr (s1\<lparr>availableCash :=
                              js_plus (availableCash s1)
                                (js_times (num_of_int (price ord)) (num_of_int (volume ord)))\<rparr>)
               else update_subproperty AvailableAssetsDict (asset_name ord)
                      (num_of_int (volume ord)) s1)
            else Inr s1) (\<lambda>s2.
           Inr (dispatchEvent (ConfirmOrderCancel ord) s2)))"

definition handle_error :: "error_payload \<Rightarrow> trader_state \<Rightarrow> trader_state" where
  "handle_error msg s =
     (if err_pcode msg = this_pcode s then dispatchEvent (ErrorEvent (err_message msg)) s else s)"

section \<open>Dispatch\<close>

text \<open>
  \<open>this.message_handlers\<close> is an object literal with four own properties, so the lookup
  \<^verbatim>\<open>this.message_handlers[msg.type]\<close> also finds what the literal inherits from
  \<^verbatim>\<open>Object.prototype\<close>. \<open>Inherited name\<close> stands for such a member. Calling it
  through \<^verbatim>\<open>handler.call\<close> throws for \<open>__proto__\<close>, whose value is an object, and
  for \<open>__defineGetter__\<close> and \<open>__defineSetter__\<close>, which get no function; the other
  members return.
\<close>

datatype handler =
  Handle_confirm_enter
| Handle_confirm_trade
| Handle_confirm_cancel
| Handle_error
| Inherited string

definition message_handlers :: "string \<Rightarrow> handler option" where
  "message_handlers t =
     (if t = ''confirm_enter'' then Some Handle_confirm_enter
      else if t = ''confirm_trade'' then Some Handle_confirm_trade
      else if t = ''confirm_cancel'' then Some Handle_confirm_cancel
      else if t = ''error'' then Some Handle_error
      else if t \<in> set object_prototype_names then Some (Inherited t)
      else None)"

fun call_handler :: "handler \<Rightarrow> payload \<Rightarrow> trader_state \<Rightarrow> outcome" where
  "call_handler Handle_confirm_enter (POrder ord) s = handle_confirm_enter ord s"
| "call_handler Handle_confirm_trade (PTrade msg) s = handle_confirm_trade msg s"
| "call_handler Handle_confirm_cancel (POrder ord) s = handle_confirm_cancel ord s"
| "call_handler Handle_error (PError msg) s = Inr (handle_error msg s)"
| "call_handler (Inherited name) p s =
     (if name \<in> {''__proto__'', ''__defineGetter__'', ''__defineSetter__''}
      then Inl (TypeError, s) else Inr s)"
| "call_handler h p s = Inl (PayloadShape, s)"

definition on_message :: "message \<Rightarrow> trader_state \<Rightarrow> outcome" where
  "on_message msg s =
     (case message_handlers (msg_type msg) of
        None \<Rightarrow> Inl (InvalidMessageType (msg_type msg), s)
      | Some handler \<Rightarrow> call_handler handler (msg_payload msg) s)"

text \<open>
  A thrown error ends the processing of that event only; the state stays as it is at the
  throw and the next event is handled.
\<close>

definition process :: "trader_state \<Rightarrow> message \<Rightarrow> trader_state" where
  "process s msg = state_of (on_message msg s)"

section \<open>Event streams and the orderings of the specification\<close>

definition confirm_enter :: "order \<Rightarrow> message" where
  "confirm_enter ord = \<lparr>msg_type = ''confirm_enter'', msg_payload = POrder ord\<rparr>"

definition confirm_cancel :: "order \<Rightarrow> message" where
  "confirm_cancel ord = \<lparr>msg_type = ''confirm_cancel'', msg_payload = POrder ord\<rparr>"

definition confirm_trade :: "trade \<Rightarrow> message" where
  "confirm_trade t = \<lparr>msg_type = ''confirm_trade'', msg_payload = PTrade t\<rparr>"

text \<open>Events are handled one at a time, in arrival order.\<close>

definition run :: "trader_state \<Rightarrow> message list \<Rightarrow> trader_state" where
  "run s msgs = foldl process s msgs"

text \<open>
  The orderings the specification asks of the two books and of the trades list:
  \<open>bid_before a b\<close> (\<open>ask_before a b\<close>) says that \<open>a\<close> may stand before \<open>b\<close> in the
  bid (ask) book.
\<close>

definition bid_before :: "order \<Rightarrow> order \<Rightarrow> bool" where
  "bid_before a b = (price a > price b \<or> (price a = price b \<and> timestamp a \<le> timestamp b))"

definition bids_sorted :: "order list \<Rightarrow> bool" where
  "bids_sorted xs = sorted_wrt bid_before xs"

definition ask_before :: "order \<Rightarrow> order \<Rightarrow> bool" where
  "ask_before a b = (price a < price b \<or> (price a = price b \<and> timestamp a \<le> timestamp b))"

definition asks_sorted :: "order list \<Rightarrow> bool" where
  "asks_sorted xs = sorted_wrt ask_before xs"

text \<open>The order that \<open>_insert_ask\<close> keeps: equal prices latest first.\<close>

definition ask_before_latest_first :: "order \<Rightarrow> order \<Rightarrow> bool" where
  "ask_before_latest_first a b =
     (price a < price b \<or> (price a = price b \<and> timestamp a \<ge> timestamp b))"

definition trades_sorted :: "trade list \<Rightarrow> bool" where
  "trades_sorted ts = sorted_wrt (\<lambda>a b. trade_timestamp a \<le> trade_timestamp b) ts"

section \<open>States, orders and trades of the scenarios\<close>

text \<open>The state before any event, with empty books and no holdings.\<close>

definition initial_state :: "string \<Rightarrow> trader_state" where
  "initial_state pc = \<lparr>this_pcode = pc, bids = [], asks = [], trades = [],
     settledAssetsDict = Map.empty, availableAssetsDict = Map.empty,
     settledCash = Num 0, availableCash = Num 0, emitted = []\<rparr>"

definition mk_order :: "int \<Rightarrow> bool \<Rightarrow> int \<Rightarrow> real \<Rightarrow> string \<Rightarrow> order" where
  "mk_order oid b p ts pc = \<lparr>timestamp = ts, price = p, volume = 1, is_bid = b, pcode = pc,
     traded_volume = 0, order_id = oid, asset_name = ''A''\<rparr>"

definition mk_trade :: "real \<Rightarrow> order \<Rightarrow> order list \<Rightarrow> trade" where
  "mk_trade ts taking makers = \<lparr>trade_timestamp = ts, trade_asset_name = ''A'',
     taking_order = taking, making_orders = makers\<rparr>"

text \<open>Two states that differ in the holdings at most: the books, the trades list,
  the viewer and the trace are the same.\<close>

definition holdings_only :: "trader_state \<Rightarrow> trader_state \<Rightarrow> bool" where
  "holdings_only s s' =
     (bids s' = bids s \<and> asks s' = asks s \<and> trades s' = trades s
      \<and> this_pcode s' = this_pcode s \<and> emitted s' = emitted s)"

text \<open>The book that \<open>_remove_order\<close> selects by the \<open>is_bid\<close> flag of an order.\<close>

definition book :: "bool \<Rightarrow> trader_state \<Rightarrow> order list" where
  "book b s = (if b then bids s else asks s)"

text \<open>A state with 100 of cash and 5 units of asset \<open>A\<close>, settled and available.\<close>

definition funded_state :: "string \<Rightarrow> trader_state" where
  "funded_state pc = \<lparr>this_pcode = pc, bids = [], asks = [], trades = [],
     settledAssetsDict = [''A'' \<mapsto> Num 5], availableAssetsDict = [''A'' \<mapsto> Num 5],
     settledCash = Num 100, availableCash = Num 100, emitted = []\<rparr>"

text \<open>
  A plain asset name: it has no dot, so it is one path part, and it is not the name of a
  member that objects inherit, so a read of it finds an entry of the dictionary or
  \<open>undefined\<close>.
\<close>

definition plain_name :: "string \<Rightarrow> bool" where
  "plain_name k = (CHR ''.'' \<notin> set k \<and> k \<notin> set object_prototype_names)"

text \<open>The same holdings under an asset named \<open>A.B\<close>.\<close>

definition dotted_state :: "string \<Rightarrow> trader_state" where
  "dotted_state pc = \<lparr>this_pcode = pc, bids = [], asks = [], trades = [],
     settledAssetsDict = [''A.B'' \<mapsto> Num 5], availableAssetsDict = [''A.B'' \<mapsto> Num 5],
     settledCash = Num 100, availableCash = Num 100, emitted = []\<rparr>"

text \<open>A state with resting orders of other participants.\<close>

definition resting_state :: "string \<Rightarrow> trader_state" where
  "resting_state pc = \<lparr>this_pcode = pc,
     bids = [mk_order 3 True 4 0.5 ''P3''],
     asks = [\<lparr>timestamp = 1, price = 10, volume = 5, is_bid = False, pcode = ''P2'',
              traded_volume = 0, order_id = 1, asset_name = ''A''\<rparr>,
             mk_order 2 False 11 2 ''P3''],
     trades = [],
     settledAssetsDict = [''A'' \<mapsto> Num 5], availableAssetsDict = [''A'' \<mapsto> Num 5],
     settledCash = Num 100, availableCash = Num 100, emitted = []\<rparr>"

text \<open>Removal of the first order with a given id: what the scan and the splice of
  \<open>_remove_order\<close> do to the selected book.\<close>

fun remove_first :: "int \<Rightarrow> order list \<Rightarrow> order list" where
  "remove_first i [] = []"
| "remove_first i (x # xs) = (if order_id x = i then xs else x # remove_first i xs)"

text \<open>
  The condition under which no holdings update of a trade can throw: the asset names of
  the legs that are the viewer's are plain.
\<close>

definition viewer_legs_plain :: "trader_state \<Rightarrow> trade \<Rightarrow> bool" where
  "viewer_legs_plain s msg =
     ((pcode (taking_order msg) = this_pcode s \<longrightarrow> plain_name (asset_name (taking_order msg)))
      \<and> (\<forall>m \<in> set (making_orders msg).
            pcode m = this_pcode s \<longrightarrow> plain_name (asset_name m)))"

text \<open>The four quantities of the holdings ledger.\<close>

definition holdings_of ::
  "trader_state \<Rightarrow> jsnum \<times> jsnum \<times> (string \<rightharpoonup> jsnum) \<times> (string \<rightharpoonup> jsnum)" where
  "holdings_of s = (availableCash s, settledCash s, availableAssetsDict s, settledAssetsDict s)"

text \<open>
  The update of one trade leg in the words of the specification: for a bid the volume is
  added to the asset's entry of both dictionaries and price times volume is subtracted
  from both cash quantities, for an ask the opposite. \<open>leg_updates\<close> is what the
  specification asks for one making order when the taking order is the viewer's: the
  maker's update when the viewer owns the making order, then the taker's update with the
  making order's price and traded volume and the taking order's side and asset.
\<close>

definition on_trade_leg :: "jsnum \<Rightarrow> jsnum \<Rightarrow> bool \<Rightarrow> string \<Rightarrow> trader_state \<Rightarrow> trader_state" where
  "on_trade_leg p v b a s =
     (if b then
        s\<lparr>availableAssetsDict := (availableAssetsDict s)(a \<mapsto> js_add (availableAssetsDict s a) v),
          settledAssetsDict := (settledAssetsDict s)(a \<mapsto> js_add (settledAssetsDict s a) v),
          availableCash := js_minus (availableCash s) (js_times p v),
          settledCash := js_minus (settledCash s) (js_times p v)\<rparr>
      else
        s\<lparr>availableAssetsDict :=
            (availableAssetsDict s)(a \<mapsto> js_add (availableAssetsDict s a) (js_neg v)),
          settledAssetsDict :=
            (settledAssetsDict s)(a \<mapsto> js_add (settledAssetsDict s a) (js_neg v)),
          availableCash := js_plus (availableCash s) (js_times p v),
          settledCash := js_plus (settledCash s) (js_times p v)\<rparr>)"

definition leg_updates :: "order \<Rightarrow> trader_state \<Rightarrow> order \<Rightarrow> trader_state" where
  "leg_updates taking s m =
     on_trade_leg (num_of_int (price m)) (num_of_int (traded_volume m))
       (is_bid taking) (asset_name taking)
       (if pcode m = this_pcode s
        then on_trade_leg (num_of_int (price m)) (num_of_int (traded_volume m))
               (is_bid m) (asset_name m) s
        else s)"

text \<open>The order ids resident in the two books, bids first.\<close>

definition ids :: "trader_state \<Rightarrow> int list" where
  "ids s = map order_id (bids s @ asks s)"

text \<open>
  An event that the protocol admits in a state: its payload has the shape the messaging
  specification gives its type, and the order of a \<open>confirm_enter\<close> has an id that is
  resident in neither book. \<open>stream_ok\<close> asks this of each event of a stream, in the
  state the event is handled in.
\<close>

definition admissible :: "trader_state \<Rightarrow> message \<Rightarrow> bool" where
  "admissible s msg =
     (if msg_type msg = ''confirm_enter'' then
        (case msg_payload msg of POrder ord \<Rightarrow> order_id ord \<notin> set (ids s) | _ \<Rightarrow> False)
      else if msg_type msg = ''confirm_trade'' then
        (case msg_payload msg of PTrade t \<Rightarrow> True | _ \<Rightarrow> False)
      else if msg_type msg = ''confirm_cancel'' then
        (case msg_payload msg of POrder ord \<Rightarrow> True | _ \<Rightarrow> False)
      else if msg_type msg = ''error'' then
        (case msg_payload msg of PError e \<Rightarrow> True | _ \<Rightarrow> False)
      else True)"

fun stream_ok :: "trader_state \<Rightarrow> message list \<Rightarrow> bool" where
  "stream_ok s [] = True"
| "stream_ok s (msg # msgs) = (admissible s msg \<and> stream_ok (process s msg) msgs)"

text \<open>Entry of a bid and an ask, cancellation of the bid, and a new bid under its id.\<close>

definition sample_stream :: "message list" where
  "sample_stream =
     [confirm_enter (mk_order 1 True 10 1 ''P1''),
      confirm_enter (mk_order 2 False 12 2 ''P2''),
      confirm_cancel (mk_order 1 True 10 1 ''P1''),
      confirm_enter (mk_order 1 True 11 3 ''P1'')]"

text \<open>A state in which the viewer has a resting ask on an asset named \<open>A.B\<close>, while
  the dictionaries hold a number under \<open>A\<close>; and a trade that names that ask.\<close>

definition dotted_resting_state :: "string \<Rightarrow> trader_state" where
  "dotted_resting_state pc = \<lparr>this_pcode = pc, bids = [],
     asks = [\<lparr>timestamp = 1, price = 10, volume = 5, is_bid = False, pcode = pc,
              traded_volume = 0, order_id = 1, asset_name = ''A.B''\<rparr>],
     trades = [],
     settledAssetsDict = [''A'' \<mapsto> Num 5], availableAssetsDict = [''A'' \<mapsto> Num 5],
     settledCash = Num 100, availableCash = Num 100, emitted = []\<rparr>"

definition dotted_fill :: "string \<Rightarrow> trade" where
  "dotted_fill pc = \<lparr>trade_timestamp = 3, trade_asset_name = ''A.B'',
     taking_order = \<lparr>timestamp = 3, price = 10, volume = 5, is_bid = True, pcode = ''P4'',
              traded_volume = 5, order_id = 9, asset_name = ''A.B''\<rparr>,
     making_orders = [\<lparr>timestamp = 1, price = 10, volume = 5, is_bid = False, pcode = pc,
              traded_volume = 5, order_id = 1, asset_name = ''A.B''\<rparr>]\<rparr>"

text \<open>A trade that fills 2 of the 5 units of the resting ask 1.\<close>

definition partial_fill :: trade where
  "partial_fill = \<lparr>trade_timestamp = 3, trade_asset_name = ''A'',
     taking_order = \<lparr>timestamp = 3, price = 10, volume = 2, is_bid = True, pcode = ''P4'',
              traded_volume = 2, order_id = 9, asset_name = ''A''\<rparr>,
     making_orders = [\<lparr>timestamp = 1, price = 10, volume = 5, is_bid = False, pcode = ''P2'',
              traded_volume = 2, order_id = 1, asset_name = ''A''\<rparr>]\<rparr>"

text \<open>A trade taken by \<open>P1\<close> whose second making order is also of \<open>P1\<close>.\<close>

definition own_two_legs :: trade where
  "own_two_legs = \<lparr>trade_timestamp = 3, trade_asset_name = ''A'',
     taking_order = \<lparr>timestamp = 3, price = 11, volume = 3, is_bid = True, pcode = ''P1'',
              traded_volume = 3, order_id = 9, asset_name = ''A''\<rparr>,
     making_orders =
       [\<lparr>timestamp = 1, price = 10, volume = 2, is_bid = False, pcode = ''P2'',
              traded_volume = 2, order_id = 1, asset_name = ''A''\<rparr>,
        \<lparr>timestamp = 2, price = 11, volume = 1, is_bid = False, pcode = ''P1'',
              traded_volume = 1, order_id = 2, asset_name = ''A''\<rparr>]\<rparr>"

text \<open>A trade taken by the viewer on an asset named \<open>A.B\<close>, with two making orders
  of another participant.\<close>

definition dotted_take :: trade where
  "dotted_take = \<lparr>trade_timestamp = 3, trade_asset_name = ''A.B'',
     taking_order = \<lparr>timestamp = 3, price = 11, volume = 3, is_bid = True, pcode = ''P1'',
              traded_volume = 3, order_id = 9, asset_name = ''A.B''\<rparr>,
     making_orders =
       [\<lparr>timestamp = 1, price = 10, volume = 2, is_bid = False, pcode = ''P2'',
              traded_volume = 2, order_id = 1, asset_name = ''A.B''\<rparr>,
        \<lparr>timestamp = 2, price = 11, volume = 1, is_bid = False, pcode = ''P2'',
              traded_volume = 1, order_id = 2, asset_name = ''A.B''\<rparr>]\<rparr>"

section \<open>The scanning loop and the two splices\<close>

lemma scan_takeWhile_drop:
  "i \<le> length xs \<Longrightarrow> scan stop xs i = i + length (takeWhile (\<lambda>x. \<not> stop x) (drop i xs))"
proof (induction stop xs i rule: scan.induct)
  case (1 stop xs i)
  show ?case
  proof (cases "i < length xs")
    case True
    then have d: "drop i xs = xs ! i # drop (Suc i) xs"
      by (simp add: Cons_nth_drop_Suc)
    show ?thesis
    proof (cases "stop (xs ! i)")
      case True
      with \<open>i < length xs\<close> d show ?thesis by (subst scan.simps) simp
    next
      case False
      with \<open>i < length xs\<close> d "1.IH" show ?thesis by (subst scan.simps) simp
    qed
  next
    case False
    with "1.prems" show ?thesis by (subst scan.simps) simp
  qed
qed

lemma scan_0: "scan stop xs 0 = length (takeWhile (\<lambda>x. \<not> stop x) xs)"
  using scan_takeWhile_drop [of 0 xs stop] by simp

lemma splice_insert_scan:
  "splice_insert xs (Some (scan stop xs 0)) x =
     takeWhile (\<lambda>x. \<not> stop x) xs @ x # dropWhile (\<lambda>x. \<not> stop x) xs"
  by (simp add: splice_insert_def scan_0 takeWhile_eq_take [symmetric] dropWhile_eq_drop [symmetric])

lemma splice_delete_scan:
  "splice_delete xs (scan stop xs 0) =
     takeWhile (\<lambda>x. \<not> stop x) xs @ tl (dropWhile (\<lambda>x. \<not> stop x) xs)"
proof -
  have "drop (Suc (length (takeWhile (\<lambda>x. \<not> stop x) xs))) xs
      = tl (drop (length (takeWhile (\<lambda>x. \<not> stop x) xs)) xs)"
    by (simp add: drop_Suc tl_drop)
  then show ?thesis
    by (simp add: splice_delete_def scan_0 takeWhile_eq_take [symmetric] dropWhile_eq_drop [symmetric])
qed

lemma scan_not_found: "(scan stop xs 0 \<ge> length xs) = (\<forall>x \<in> set xs. \<not> stop x)"
proof -
  have "(length (takeWhile (\<lambda>x. \<not> stop x) xs) = length xs) = (\<forall>x \<in> set xs. \<not> stop x)"
    by (metis takeWhile_eq_all_conv length_takeWhile_le takeWhile_eq_take take_all_iff order_refl)
  moreover have "length (takeWhile (\<lambda>x. \<not> stop x) xs) \<le> length xs"
    by (rule length_takeWhile_le)
  ultimately show ?thesis unfolding scan_0 by linarith
qed

section \<open>Outcomes and what the holdings updates leave alone\<close>

lemma state_of_simps [simp]: "state_of (Inr s) = s" "state_of (Inl (e, s)) = s"
  by (simp_all add: state_of_def)

lemma and_then_simps [simp]: "and_then (Inr s) f = f s" "and_then (Inl e) f = Inl e"
  by (simp_all add: and_then_def)

text \<open>What \<open>_update_subproperty\<close> leaves alone, whether it returns or throws.\<close>

lemma update_subproperty_frame [simp]:
  "bids (state_of (update_subproperty pr k a s)) = bids s"
  "asks (state_of (update_subproperty pr k a s)) = asks s"
  "trades (state_of (update_subproperty pr k a s)) = trades s"
  "this_pcode (state_of (update_subproperty pr k a s)) = this_pcode s"
  "emitted (state_of (update_subproperty pr k a s)) = emitted s"
  "availableCash (state_of (update_subproperty pr k a s)) = availableCash s"
  "settledCash (state_of (update_subproperty pr k a s)) = settledCash s"
  by (auto simp: update_subproperty_def Let_def split: sum.splits dict_property.splits)

lemma update_subproperty_thrown: "update_subproperty pr k a s = Inl (e, s') \<Longrightarrow> s' = s"
  by (auto simp: update_subproperty_def Let_def split: sum.splits if_splits)

lemma holdings_only_refl [simp]: "holdings_only s s"
  by (simp add: holdings_only_def)

lemma holdings_only_trans: "holdings_only s t \<Longrightarrow> holdings_only t u \<Longrightarrow> holdings_only s u"
  by (simp add: holdings_only_def)

lemma holdings_only_and_then:
  assumes "holdings_only s (state_of r)"
    and "\<And>s1. r = Inr s1 \<Longrightarrow> holdings_only s1 (state_of (f s1))"
  shows "holdings_only s (state_of (and_then r f))"
proof (cases r)
  case (Inl e)
  with assms(1) show ?thesis by simp
next
  case (Inr s1)
  with assms show ?thesis by (auto intro: holdings_only_trans)
qed

lemma holdings_only_update_subproperty [simp]:
  "holdings_only s (state_of (update_subproperty pr k a s))"
  by (simp add: holdings_only_def)

lemma holdings_only_update_holdings [simp]:
  "holdings_only s (state_of (update_holdings p v b a s))"
  unfolding update_holdings_def
  by (auto intro!: holdings_only_and_then simp: Let_def) (simp_all add: holdings_only_def)

lemma update_holdings_frame [simp]:
  "bids (state_of (update_holdings p v b a s)) = bids s"
  "asks (state_of (update_holdings p v b a s)) = asks s"
  "trades (state_of (update_holdings p v b a s)) = trades s"
  "this_pcode (state_of (update_holdings p v b a s)) = this_pcode s"
  "emitted (state_of (update_holdings p v b a s)) = emitted s"
  using holdings_only_update_holdings [of s p v b a] by (simp_all add: holdings_only_def)

section \<open>Sorted insertion into the books\<close>

lemma state_of_and_then_Inr:
  "state_of (and_then r (\<lambda>s. Inr (g s))) = (case r of Inl (e, s) \<Rightarrow> s | Inr s \<Rightarrow> g s)"
  by (cases r) auto

lemma process_confirm_enter [simp]:
  "process s (confirm_enter ord) = state_of (handle_confirm_enter ord s)"
  by (simp add: process_def on_message_def confirm_enter_def message_handlers_def)

lemma process_confirm_cancel [simp]:
  "process s (confirm_cancel ord) = state_of (handle_confirm_cancel ord s)"
  by (simp add: process_def on_message_def confirm_cancel_def message_handlers_def)

lemma process_confirm_trade [simp]:
  "process s (confirm_trade t) = state_of (handle_confirm_trade t s)"
  by (simp add: process_def on_message_def confirm_trade_def message_handlers_def)

lemma bids_insert_bid:
  "bids (insert_bid ord s) =
     takeWhile (\<lambda>b. \<not> compare_orders b ord < 0) (bids s) @ ord #
     dropWhile (\<lambda>b. \<not> compare_orders b ord < 0) (bids s)"
  by (simp add: insert_bid_def Let_def splice_insert_scan)

lemma asks_insert_bid [simp]: "asks (insert_bid ord s) = asks s"
  by (simp add: insert_bid_def Let_def)

lemma asks_insert_ask:
  "asks (state_of (insert_ask ord s)) =
     takeWhile (\<lambda>a. \<not> compare_orders a ord > 0) (asks s) @ ord #
     dropWhile (\<lambda>a. \<not> compare_orders a ord > 0) (asks s)"
  by (simp add: insert_ask_def Let_def splice_insert_scan)

lemma bids_insert_ask [simp]: "bids (state_of (insert_ask ord s)) = bids s"
  by (simp add: insert_ask_def Let_def)

lemma bids_handle_confirm_enter:
  "bids (state_of (handle_confirm_enter ord s)) =
     (if is_bid ord then bids (insert_bid ord s) else bids s)"
  by (cases "insert_ask ord s")
     (auto simp: handle_confirm_enter_def dispatchEvent_def dest: arg_cong [where f = "\<lambda>r. bids (state_of r)"])

lemma asks_handle_confirm_enter:
  "asks (state_of (handle_confirm_enter ord s)) =
     (if is_bid ord then asks s else asks (state_of (insert_ask ord s)))"
  by (cases "insert_ask ord s") (auto simp: handle_confirm_enter_def dispatchEvent_def)

lemma not_stop_bid: "(\<not> compare_orders b ord < 0) = bid_before b ord"
  by (auto simp: compare_orders_def bid_before_def)

lemma sorted_wrt_insert:
  assumes tr: "\<And>x y z. R x y \<Longrightarrow> R y z \<Longrightarrow> R x z"
    and tot: "\<And>x. \<not> R x a \<Longrightarrow> R a x"
  shows "sorted_wrt R xs \<Longrightarrow>
    sorted_wrt R (takeWhile (\<lambda>x. R x a) xs @ a # dropWhile (\<lambda>x. R x a) xs)"
proof (induction xs)
  case Nil
  then show ?case by simp
next
  case (Cons x xs)
  show ?case
  proof (cases "R x a")
    case True
    have "\<forall>y \<in> set (takeWhile (\<lambda>x. R x a) xs @ a # dropWhile (\<lambda>x. R x a) xs). R x y"
      using Cons.prems True by (auto dest: set_takeWhileD set_dropWhileD)
    with Cons True show ?thesis by simp
  next
    case False
    then have "R a x" by (rule tot)
    with Cons.prems have "\<forall>y \<in> set xs. R a y" by (auto intro: tr)
    with Cons.prems False \<open>R a x\<close> show ?thesis by simp
  qed
qed

lemma bid_before_trans: "bid_before x y \<Longrightarrow> bid_before y z \<Longrightarrow> bid_before x z"
  by (auto simp: bid_before_def)

lemma bid_before_total: "\<not> bid_before x a \<Longrightarrow> bid_before a x"
  by (auto simp: bid_before_def)

lemma bids_sorted_insert_bid: "bids_sorted (bids s) \<Longrightarrow> bids_sorted (bids (insert_bid ord s))"
  unfolding bids_sorted_def bids_insert_bid not_stop_bid
  by (rule sorted_wrt_insert [OF bid_before_trans bid_before_total])

lemma bids_sorted_run:
  "bids_sorted (bids s) \<Longrightarrow> bids_sorted (bids (run s (map confirm_enter os)))"
proof (induction os arbitrary: s)
  case Nil
  then show ?case by (simp add: run_def)
next
  case (Cons a os)
  have "bids_sorted (bids (state_of (handle_confirm_enter a s)))"
    using Cons.prems by (simp add: bids_handle_confirm_enter bids_sorted_insert_bid)
  from Cons.IH [OF this] show ?case by (simp add: run_def)
qed

text \<open>
  C4. Started from a bid book that is sorted (the empty book is), every sequence of
  \<open>confirm_enter\<close> events for bid orders leaves the bid book sorted after each insertion:
  by descending price, and among equal prices by ascending timestamp. Entering
  A (price 10, timestamp 1.0), B (12, 2.0) and C (10, 0.5) in that order gives [B, C, A].
\<close>

theorem bids_sorted_after_each_insertion:
  "(bids_sorted (bids s) \<and> (\<forall>ord \<in> set os. is_bid ord) \<longrightarrow>
      (\<forall>n \<le> length os. bids_sorted (bids (run s (map confirm_enter (take n os))))))
   \<and> bids (run (initial_state pc)
        [confirm_enter (mk_order 1 True 10 1.0 p1),
         confirm_enter (mk_order 2 True 12 2.0 p2),
         confirm_enter (mk_order 3 True 10 0.5 p3)])
     = [mk_order 2 True 12 2.0 p2, mk_order 3 True 10 0.5 p3, mk_order 1 True 10 1.0 p1]"
proof (intro conjI impI allI)
  fix n
  assume "bids_sorted (bids s) \<and> (\<forall>ord \<in> set os. is_bid ord)"
  then show "bids_sorted (bids (run s (map confirm_enter (take n os))))"
    by (simp add: bids_sorted_run)
next
  show "bids (run (initial_state pc)
        [confirm_enter (mk_order 1 True 10 1.0 p1),
         confirm_enter (mk_order 2 True 12 2.0 p2),
         confirm_enter (mk_order 3 True 10 0.5 p3)])
     = [mk_order 2 True 12 2.0 p2, mk_order 3 True 10 0.5 p3, mk_order 1 True 10 1.0 p1]"
    by (simp add: run_def bids_handle_confirm_enter bids_insert_bid compare_orders_def
          mk_order_def initial_state_def)
qed

theorem bids_sorted_after_each_insertion_witness:
  "bids_sorted (bids (initial_state ''P1''))
   \<and> is_bid (mk_order 1 True 10 1.0 ''P1'') \<and> is_bid (mk_order 2 True 12 2.0 ''P2'')
   \<and> (2::nat) \<le> length [mk_order 1 True 10 1.0 ''P1'', mk_order 2 True 12 2.0 ''P2'']
   \<and> bids_sorted (bids (run (initial_state ''P1'')
        (map confirm_enter (take 2 [mk_order 1 True 10 1.0 ''P1'', mk_order 2 True 12 2.0 ''P2'']))))"
proof -
  have h: "bids_sorted (bids (initial_state ''P1''))
     \<and> (\<forall>ord \<in> set [mk_order 1 True 10 1.0 ''P1'', mk_order 2 True 12 2.0 ''P2'']. is_bid ord)"
    by (simp add: initial_state_def bids_sorted_def mk_order_def)
  have n: "(2::nat) \<le> length [mk_order 1 True 10 1.0 ''P1'', mk_order 2 True 12 2.0 ''P2'']"
    by simp
  from bids_sorted_after_each_insertion [THEN conjunct1, rule_format, OF h n] h n
  show ?thesis by simp
qed

lemma not_stop_ask: "(\<not> compare_orders a ord > 0) = ask_before_latest_first a ord"
  by (auto simp: compare_orders_def ask_before_latest_first_def)

lemma ask_before_latest_first_trans:
  "ask_before_latest_first x y \<Longrightarrow> ask_before_latest_first y z \<Longrightarrow> ask_before_latest_first x z"
  by (auto simp: ask_before_latest_first_def)

lemma ask_before_latest_first_total:
  "\<not> ask_before_latest_first x a \<Longrightarrow> ask_before_latest_first a x"
  by (auto simp: ask_before_latest_first_def)

lemma asks_insert_ask_latest_first:
  "sorted_wrt ask_before_latest_first (asks s) \<Longrightarrow>
   sorted_wrt ask_before_latest_first (asks (state_of (insert_ask ord s)))"
  unfolding asks_insert_ask not_stop_ask
  by (rule sorted_wrt_insert [OF ask_before_latest_first_trans ask_before_latest_first_total])

text \<open>
  C2. Two asks at the same price, entered in the order of their timestamps: the loop of
  \<open>_insert_ask\<close> stops at the resting ask, because \<open>_compare_orders\<close> is positive for
  an earlier timestamp, and the later ask is placed in front of the earlier one. The
  resulting ask book is not in the order of the specification (earliest first).
\<close>

theorem equal_price_asks_latest_first:
  "asks (run (initial_state ''P1'')
      [confirm_enter (mk_order 1 False 5 1.0 ''P2''), confirm_enter (mk_order 2 False 5 2.0 ''P3'')])
   = [mk_order 2 False 5 2.0 ''P3'', mk_order 1 False 5 1.0 ''P2'']
   \<and> \<not> asks_sorted (asks (run (initial_state ''P1'')
      [confirm_enter (mk_order 1 False 5 1.0 ''P2''), confirm_enter (mk_order 2 False 5 2.0 ''P3'')]))"
  by (simp add: run_def asks_handle_confirm_enter asks_insert_ask compare_orders_def
        mk_order_def initial_state_def asks_sorted_def ask_before_def)

section \<open>The trades list\<close>

text \<open>
  The index of the trade loop is declared without a value, so the loop does not run and
  the splice inserts at the front, whatever the timestamps are.
\<close>

lemma trades_handle_confirm_trade:
  "trade_legs (taking_order msg) (making_orders msg) s = Inr s1 \<Longrightarrow>
   trades (state_of (handle_confirm_trade msg s)) = msg # trades s1"
  by (simp add: handle_confirm_trade_def Let_def scan_from_def splice_insert_def dispatchEvent_def)

text \<open>
  C1. From the initial state, a trade with timestamp 1 and then a trade with timestamp 2:
  the second trade is placed before the first, and the trades list is not in ascending
  order of timestamp.
\<close>

theorem confirm_trade_prepends_later_trade:
  "trades (run (initial_state ''P1'')
      [confirm_trade (mk_trade 1 (mk_order 1 True 10 0.5 ''P2'') []),
       confirm_trade (mk_trade 2 (mk_order 2 True 10 1.5 ''P2'') [])])
   = [mk_trade 2 (mk_order 2 True 10 1.5 ''P2'') [], mk_trade 1 (mk_order 1 True 10 0.5 ''P2'') []]
   \<and> \<not> trades_sorted (trades (run (initial_state ''P1'')
      [confirm_trade (mk_trade 1 (mk_order 1 True 10 0.5 ''P2'') []),
       confirm_trade (mk_trade 2 (mk_order 2 True 10 1.5 ''P2'') [])]))"
  by (simp add: run_def trades_handle_confirm_trade initial_state_def trades_sorted_def
        mk_trade_def)

section \<open>Message types outside the protocol\<close>

lemma unknown_type_is_rejected:
  "t \<notin> {''confirm_enter'', ''confirm_trade'', ''confirm_cancel'', ''error''} \<Longrightarrow>
   t \<notin> set object_prototype_names \<Longrightarrow>
   on_message \<lparr>msg_type = t, msg_payload = p\<rparr> s = Inl (InvalidMessageType t, s)"
  by (simp add: on_message_def message_handlers_def)

lemma unknown_type_keeps_state:
  "t \<notin> {''confirm_enter'', ''confirm_trade'', ''confirm_cancel'', ''error''} \<Longrightarrow>
   process s \<lparr>msg_type = t, msg_payload = p\<rparr> = s"
  by (simp add: process_def on_message_def message_handlers_def)

text \<open>
  C10. A message of type \<open>toString\<close>, which is none of the four message types: the
  lookup in \<open>message_handlers\<close> finds the member inherited from
  \<^verbatim>\<open>Object.prototype\<close>, so \<open>_on_message\<close> does not throw; the call returns
  and the event is dropped without an error.
\<close>

theorem inherited_type_is_not_rejected:
  "on_message \<lparr>msg_type = ''toString'', msg_payload = p\<rparr> s = Inr s"
  by (simp add: on_message_def message_handlers_def object_prototype_names_def)

section \<open>Rounding\<close>

lemma round_half_even_of_int [simp]: "round_half_even (of_int j) = j"
  by (simp add: round_half_even_def)

lemma quantum_pos: "0 < quantum x"
  by (simp add: quantum_def)

lemma floor_log2_bounds:
  assumes "1 \<le> \<bar>x\<bar>" and "\<bar>x\<bar> < 2 ^ n"
  shows "0 \<le> \<lfloor>log 2 \<bar>x\<bar>\<rfloor>" and "\<lfloor>log 2 \<bar>x\<bar>\<rfloor> < int n"
proof -
  have "0 \<le> log 2 \<bar>x\<bar>" using assms(1) by simp
  then show "0 \<le> \<lfloor>log 2 \<bar>x\<bar>\<rfloor>" by simp
  have "log 2 \<bar>x\<bar> < log 2 (2 ^ n)"
    using assms by (intro log_less) auto
  then have "log 2 \<bar>x\<bar> < real n" by simp
  then show "\<lfloor>log 2 \<bar>x\<bar>\<rfloor> < int n" by linarith
qed

lemma quantum_small:
  assumes "1 \<le> \<bar>x\<bar>" and "\<bar>x\<bar> < 2 ^ 53"
  shows "\<exists>n::nat. quantum x * 2 ^ n = 1"
proof -
  from floor_log2_bounds [OF assms] have e: "0 \<le> \<lfloor>log 2 \<bar>x\<bar>\<rfloor>" "\<lfloor>log 2 \<bar>x\<bar>\<rfloor> < 53"
    by simp_all
  define n where "n = nat (52 - \<lfloor>log 2 \<bar>x\<bar>\<rfloor>)"
  have "of_int (max \<lfloor>log 2 \<bar>x\<bar>\<rfloor> (- 1022)) - 52 = - real n"
    using e by (simp add: n_def max_def)
  then have "quantum x = 2 powr (- real n)"
    by (simp add: quantum_def)
  also have "\<dots> = inverse (2 ^ n)"
    by (simp add: powr_minus powr_realpow)
  finally have "quantum x * 2 ^ n = 1" by simp
  then show ?thesis ..
qed

lemma quantum_large:
  assumes "2 ^ n \<le> \<bar>x\<bar>" and "\<bar>x\<bar> < 2 ^ Suc n" and "52 \<le> n"
  shows "quantum x = 2 ^ (n - 52)"
proof -
  have "\<lfloor>log 2 \<bar>x\<bar>\<rfloor> = int n"
  proof -
    have c1: "real_of_int (int n) = real n" and c2: "real_of_int (int n + 1) = real (Suc n)"
      by simp_all
    have p1: "(2::real) powr (real n) = 2 ^ n" and p2: "(2::real) powr (real (Suc n)) = 2 ^ Suc n"
      by (simp_all only: powr_realpow zero_less_numeral)
    have "(2::real) powr (of_int (int n)) \<le> \<bar>x\<bar> \<and> \<bar>x\<bar> < 2 powr (of_int (int n + 1))"
      unfolding c1 c2 p1 p2 using assms(1,2) by blast
    moreover have "0 < \<bar>x\<bar>" using assms(1) by (smt (verit) zero_less_power)
    ultimately show ?thesis
      using floor_log_eq_powr_iff [of "\<bar>x\<bar>" 2 "int n"] by simp
  qed
  then have "of_int (max \<lfloor>log 2 \<bar>x\<bar>\<rfloor> (- 1022)) - 52 = real (n - 52)"
    using assms(3) by (simp add: max_def)
  then have "quantum x = 2 powr (real (n - 52))"
    by (simp only: quantum_def)
  then show ?thesis by (simp only: powr_realpow zero_less_numeral)
qed

lemma quantum_53:
  assumes "2 ^ 53 \<le> \<bar>x\<bar>" and "\<bar>x\<bar> < 2 ^ 54"
  shows "quantum x = 2"
  using quantum_large [of 53 x] assms by simp

lemma round_double_multiple:
  assumes "x \<noteq> 0" and "x = of_int j * quantum x" and "\<bar>x\<bar> < 2 powr 1024"
  shows "round_double x = Num x"
proof -
  have "x / quantum x = of_int j"
    using assms(2) quantum_pos [of x] by (metis nonzero_eq_divide_eq less_irrefl)
  then show ?thesis
    using assms by (simp add: round_double_def Let_def)
qed

lemma two_55_less: "(2::real) ^ 55 < 2 powr 1024"
proof -
  have "(2::real) powr 55 < 2 powr 1024" by (intro powr_less_mono) auto
  then show ?thesis by (simp add: powr_realpow [symmetric, of 2, simplified])
qed

text \<open>An integer of magnitude at most \<open>2^53\<close> is a double.\<close>

lemma round_double_of_int:
  assumes "\<bar>k\<bar> \<le> 2 ^ 53"
  shows "round_double (of_int k) = Num (of_int k)"
proof (cases "k = 0")
  case True
  then show ?thesis by (simp add: round_double_def)
next
  case False
  let ?x = "of_int k :: real"
  have ax: "\<bar>?x\<bar> \<le> 2 ^ 53"
    using assms by (metis of_int_abs of_int_le_iff of_int_numeral of_int_power)
  have one: "1 \<le> \<bar>?x\<bar>"
    using False by (metis of_int_abs of_int_1_le_iff zero_less_abs_iff int_one_le_iff_zero_less)
  have "(2::real) ^ 53 < 2 ^ 55" by simp
  with ax two_55_less have big: "\<bar>?x\<bar> < 2 powr 1024" by linarith
  have nz: "?x \<noteq> 0" using False by simp
  show ?thesis
  proof (cases "\<bar>?x\<bar> < 2 ^ 53")
    case True
    from quantum_small [OF one True] obtain n :: nat where n: "quantum ?x * 2 ^ n = 1" ..
    have "?x = of_int (k * 2 ^ n) * quantum ?x"
      using n by (simp add: mult.assoc mult.commute [of "2 ^ n"])
    from round_double_multiple [OF nz this big] show ?thesis .
  next
    case False
    with ax have eq: "\<bar>?x\<bar> = 2 ^ 53" by simp
    then have q: "quantum ?x = 2" by (intro quantum_53) simp_all
    from eq assms have "\<bar>k\<bar> = 2 ^ 53"
      by (metis of_int_abs of_int_eq_iff of_int_numeral of_int_power)
    then have "k = 2 ^ 53 \<or> k = - (2 ^ 53)" by linarith
    then have "?x = of_int (k div 2) * quantum ?x"
      unfolding q by auto
    from round_double_multiple [OF nz this big] show ?thesis .
  qed
qed

text \<open>Between \<open>2^53\<close> and \<open>2^54\<close> the doubles are the even integers.\<close>

lemma round_double_53:
  assumes "2 ^ 53 \<le> \<bar>x\<bar>" and "\<bar>x\<bar> < 2 ^ 54"
  shows "round_double x = Num (2 * of_int (round_half_even (x / 2)))"
proof -
  have q: "quantum x = 2" using assms by (rule quantum_53)
  have nz: "x \<noteq> 0" using assms(1) by (smt (verit) zero_less_power)
  have "\<bar>of_int (round_half_even (x / 2)) :: real\<bar> \<le> \<bar>x / 2\<bar> + 1"
    by (simp add: round_half_even_def Let_def) linarith
  then have "\<bar>of_int (round_half_even (x / 2)) * 2 :: real\<bar> \<le> \<bar>x\<bar> + 2"
    by (simp add: abs_mult)
  also have "\<dots> < 2 ^ 55" using assms(2) by simp
  finally have "\<bar>of_int (round_half_even (x / 2)) * 2 :: real\<bar> < 2 powr 1024"
    using two_55_less by linarith
  then show ?thesis
    using nz q by (simp add: round_double_def Let_def mult.commute)
qed

lemma round_double_numeral [simp]:
  "numeral n \<le> (2::int) ^ 53 \<Longrightarrow> round_double (numeral n) = Num (numeral n)"
  "numeral n \<le> (2::int) ^ 53 \<Longrightarrow> round_double (- numeral n) = Num (- numeral n)"
  "round_double 0 = Num 0"
  "round_double 1 = Num 1"
  using round_double_of_int [of "numeral n"] round_double_of_int [of "- numeral n"]
    round_double_of_int [of 0] round_double_of_int [of 1]
  by simp_all

lemma num_of_int_safe: "\<bar>k\<bar> \<le> 2 ^ 53 \<Longrightarrow> num_of_int k = Num (of_int k)"
  by (simp add: num_of_int_def round_double_of_int)

lemma js_plus_int:
  "\<bar>a + b\<bar> \<le> 2 ^ 53 \<Longrightarrow> js_plus (Num (of_int a)) (Num (of_int b)) = Num (of_int (a + b))"
  using round_double_of_int [of "a + b"] by simp

lemma js_minus_int:
  "\<bar>a - b\<bar> \<le> 2 ^ 53 \<Longrightarrow> js_minus (Num (of_int a)) (Num (of_int b)) = Num (of_int (a - b))"
  using round_double_of_int [of "a - b"] by (simp add: js_minus_def)

lemma js_times_int:
  "\<bar>a * b\<bar> \<le> 2 ^ 53 \<Longrightarrow> js_times (Num (of_int a)) (Num (of_int b)) = Num (of_int (a * b))"
  using round_double_of_int [of "a * b"] by simp

text \<open>
  Two roundings past \<open>2^53\<close>: the square of 94906267 loses its last unit, and
  \<open>1 - 2^54\<close> is \<open>- 2^54\<close>.
\<close>

lemma square_is_rounded:
  "js_times (num_of_int 94906267) (num_of_int 94906267) = Num 9007199515875288"
proof -
  have "round_double 9007199515875289 = Num (2 * of_int (round_half_even (9007199515875289 / 2)))"
    by (rule round_double_53) simp_all
  moreover have "round_half_even (9007199515875289 / 2) = 4503599757937644"
    by (simp add: round_half_even_def Let_def)
  ultimately show ?thesis by (simp add: num_of_int_def)
qed

lemma one_is_absorbed:
  "js_plus (js_minus (Num 1) (js_times (num_of_int (2 ^ 27)) (num_of_int (2 ^ 27))))
     (js_times (num_of_int (2 ^ 27)) (num_of_int (2 ^ 27))) = Num 0"
proof -
  have "round_double (- 18014398509481983) = Num (2 * of_int (round_half_even (- 18014398509481983 / 2)))"
    by (rule round_double_53) simp_all
  moreover have "round_half_even (- 18014398509481983 / 2) = - 9007199254740992"
    by (simp add: round_half_even_def Let_def)
  moreover have "round_double 18014398509481984 = Num 18014398509481984"
    using round_double_multiple [of 18014398509481984 4503599627370496]
      quantum_large [of 54 18014398509481984] two_55_less by simp
  ultimately show ?thesis
    using num_of_int_safe [of "2 ^ 27"] by (simp add: js_minus_def)
qed

section \<open>Keys without a dot\<close>

lemma split_dots_no_dot: "CHR ''.'' \<notin> set k \<Longrightarrow> split_dots k = [k]"
  by (induction k) (auto split: list.splits)

lemma update_subproperty_entry:
  assumes "CHR ''.'' \<notin> set k"
  shows "availableAssetsDict s k \<noteq> None \<or> k \<notin> set object_prototype_names \<Longrightarrow>
      update_subproperty AvailableAssetsDict k a s =
        Inr (s\<lparr>availableAssetsDict := (availableAssetsDict s)(k \<mapsto> js_add (availableAssetsDict s k) a)\<rparr>)"
    and "settledAssetsDict s k \<noteq> None \<or> k \<notin> set object_prototype_names \<Longrightarrow>
      update_subproperty SettledAssetsDict k a s =
        Inr (s\<lparr>settledAssetsDict := (settledAssetsDict s)(k \<mapsto> js_add (settledAssetsDict s k) a)\<rparr>)"
  using split_dots_no_dot [OF assms] by (auto simp: update_subproperty_def Let_def)

lemma update_subproperty_plain:
  assumes "plain_name k"
  shows "update_subproperty AvailableAssetsDict k a s =
        Inr (s\<lparr>availableAssetsDict := (availableAssetsDict s)(k \<mapsto> js_add (availableAssetsDict s k) a)\<rparr>)"
    and "update_subproperty SettledAssetsDict k a s =
        Inr (s\<lparr>settledAssetsDict := (settledAssetsDict s)(k \<mapsto> js_add (settledAssetsDict s k) a)\<rparr>)"
  using assms by (simp_all add: plain_name_def update_subproperty_entry)

lemma update_subproperty_other_dict [simp]:
  "settledAssetsDict (state_of (update_subproperty AvailableAssetsDict k a s)) = settledAssetsDict s"
  "availableAssetsDict (state_of (update_subproperty SettledAssetsDict k a s)) = availableAssetsDict s"
  by (auto simp: update_subproperty_def Let_def split: sum.splits)

section \<open>Cancellation\<close>

lemma holdings_remove_order [simp]:
  "availableCash (remove_order ord s) = availableCash s"
  "settledCash (remove_order ord s) = settledCash s"
  "availableAssetsDict (remove_order ord s) = availableAssetsDict s"
  "settledAssetsDict (remove_order ord s) = settledAssetsDict s"
  "this_pcode (remove_order ord s) = this_pcode s"
  by (simp_all add: remove_order_def Let_def)

lemma remove_order_absent:
  "order_id ord \<notin> order_id ` set (book (is_bid ord) s) \<Longrightarrow>
   remove_order ord s =
     s\<lparr>emitted := emitted s @ [Warn (order_id ord) (if is_bid ord then ''bids'' else ''asks'')]\<rparr>"
proof -
  assume a: "order_id ord \<notin> order_id ` set (book (is_bid ord) s)"
  then have "\<forall>x \<in> set (book (is_bid ord) s). \<not> order_id x = order_id ord"
    by (metis imageI)
  then have "scan (\<lambda>x. order_id x = order_id ord) (book (is_bid ord) s) 0
      \<ge> length (book (is_bid ord) s)"
    by (simp only: scan_not_found)
  then show ?thesis
    by (simp add: remove_order_def book_def Let_def)
qed

lemma then_dispatch_frame [simp]:
  "bids (state_of (and_then r (\<lambda>s. Inr (dispatchEvent ev s)))) = bids (state_of r)"
  "asks (state_of (and_then r (\<lambda>s. Inr (dispatchEvent ev s)))) = asks (state_of r)"
  "trades (state_of (and_then r (\<lambda>s. Inr (dispatchEvent ev s)))) = trades (state_of r)"
  "this_pcode (state_of (and_then r (\<lambda>s. Inr (dispatchEvent ev s)))) = this_pcode (state_of r)"
  "availableCash (state_of (and_then r (\<lambda>s. Inr (dispatchEvent ev s)))) = availableCash (state_of r)"
  "settledCash (state_of (and_then r (\<lambda>s. Inr (dispatchEvent ev s)))) = settledCash (state_of r)"
  "availableAssetsDict (state_of (and_then r (\<lambda>s. Inr (dispatchEvent ev s))))
     = availableAssetsDict (state_of r)"
  "settledAssetsDict (state_of (and_then r (\<lambda>s. Inr (dispatchEvent ev s))))
     = settledAssetsDict (state_of r)"
  by (cases r; auto simp: dispatchEvent_def)+

lemma then_dispatch_emitted:
  "take (length (emitted (state_of r))) (emitted (state_of (and_then r (\<lambda>s. Inr (dispatchEvent ev s)))))
     = emitted (state_of r)"
  by (cases r) (auto simp: dispatchEvent_def)

lemma stale_cancel_always:
  assumes "order_id ord \<notin> order_id ` set (book (is_bid ord) s)"
  shows "bids (state_of (handle_confirm_cancel ord s)) = bids s"
    and "asks (state_of (handle_confirm_cancel ord s)) = asks s"
    and "trades (state_of (handle_confirm_cancel ord s)) = trades s"
    and "settledCash (state_of (handle_confirm_cancel ord s)) = settledCash s"
    and "settledAssetsDict (state_of (handle_confirm_cancel ord s)) = settledAssetsDict s"
    and "take (Suc (length (emitted s))) (emitted (state_of (handle_confirm_cancel ord s))) =
           emitted s @ [Warn (order_id ord) (if is_bid ord then ''bids'' else ''asks'')]"
proof -
  let ?s1 = "s\<lparr>emitted := emitted s @ [Warn (order_id ord) (if is_bid ord then ''bids'' else ''asks'')]\<rparr>"
  let ?r = "if pcode ord = this_pcode ?s1 then
              (if is_bid ord
               then Inr (?s1\<lparr>availableCash :=
                              js_plus (availableCash ?s1)
                                (js_times (num_of_int (price ord)) (num_of_int (volume ord)))\<rparr>)
               else update_subproperty AvailableAssetsDict (asset_name ord)
                      (num_of_int (volume ord)) ?s1)
            else Inr ?s1"
  have r: "remove_order ord s = ?s1" using assms by (rule remove_order_absent)
  have h: "handle_confirm_cancel ord s =
      and_then ?r (\<lambda>s2. Inr (dispatchEvent (ConfirmOrderCancel ord) s2))"
    unfolding handle_confirm_cancel_def r Let_def ..
  have u: "bids (state_of ?r) = bids s" "asks (state_of ?r) = asks s"
    "trades (state_of ?r) = trades s" "settledCash (state_of ?r) = settledCash s"
    "settledAssetsDict (state_of ?r) = settledAssetsDict s"
    "emitted (state_of ?r) = emitted ?s1"
    by simp_all
  show "bids (state_of (handle_confirm_cancel ord s)) = bids s"
    and "asks (state_of (handle_confirm_cancel ord s)) = asks s"
    and "trades (state_of (handle_confirm_cancel ord s)) = trades s"
    and "settledCash (state_of (handle_confirm_cancel ord s)) = settledCash s"
    and "settledAssetsDict (state_of (handle_confirm_cancel ord s)) = settledAssetsDict s"
    unfolding h using u(1-5) by (simp_all only: then_dispatch_frame)
  have "length (emitted (state_of ?r)) = Suc (length (emitted s))"
    unfolding u(6) by simp
  with then_dispatch_emitted [of ?r "ConfirmOrderCancel ord"] u(6)
  show "take (Suc (length (emitted s))) (emitted (state_of (handle_confirm_cancel ord s))) =
           emitted s @ [Warn (order_id ord) (if is_bid ord then ''bids'' else ''asks'')]"
    unfolding h by simp
qed

text \<open>
  C3, as the code has it. A \<open>confirm_cancel\<close> whose \<open>order_id\<close> is not in the book
  selected by \<open>is_bid\<close> leaves both books, the trades list, \<open>settledCash\<close> and
  \<open>settledAssetsDict\<close> as they were and logs one warning. When the order belongs to
  another participant, no error is raised, \<open>availableCash\<close> and
  \<open>availableAssetsDict\<close> stay as they were too and the cancel event is dispatched. For
  an order of the viewer the handler still applies the credit of a cancellation: for a bid
  \<open>availableCash\<close> becomes \<open>availableCash + price * volume\<close> in the arithmetic of
  doubles; for an ask with a plain asset name the entry of that name in
  \<open>availableAssetsDict\<close> becomes its old value plus \<open>volume\<close> (\<open>NaN\<close> where
  there was no entry).
\<close>

theorem stale_cancel_keeps_books_and_settled:
  assumes "order_id ord \<notin> order_id ` set (book (is_bid ord) s)"
  shows "bids (process s (confirm_cancel ord)) = bids s
    \<and> asks (process s (confirm_cancel ord)) = asks s
    \<and> trades (process s (confirm_cancel ord)) = trades s
    \<and> settledCash (process s (confirm_cancel ord)) = settledCash s
    \<and> settledAssetsDict (process s (confirm_cancel ord)) = settledAssetsDict s
    \<and> take (Suc (length (emitted s))) (emitted (process s (confirm_cancel ord))) =
        emitted s @ [Warn (order_id ord) (if is_bid ord then ''bids'' else ''asks'')]
    \<and> (pcode ord \<noteq> this_pcode s \<longrightarrow>
         on_message (confirm_cancel ord) s = Inr (process s (confirm_cancel ord))
         \<and> availableCash (process s (confirm_cancel ord)) = availableCash s
         \<and> availableAssetsDict (process s (confirm_cancel ord)) = availableAssetsDict s
         \<and> emitted (process s (confirm_cancel ord)) =
             emitted s @ [Warn (order_id ord) (if is_bid ord then ''bids'' else ''asks''),
                          Dispatched (ConfirmOrderCancel ord)])
    \<and> (pcode ord = this_pcode s \<and> is_bid ord \<longrightarrow>
         on_message (confirm_cancel ord) s = Inr (process s (confirm_cancel ord))
         \<and> availableCash (process s (confirm_cancel ord)) =
             js_plus (availableCash s) (js_times (num_of_int (price ord)) (num_of_int (volume ord)))
         \<and> availableAssetsDict (process s (confirm_cancel ord)) = availableAssetsDict s)
    \<and> (pcode ord = this_pcode s \<and> \<not> is_bid ord \<and> plain_name (asset_name ord) \<longrightarrow>
         on_message (confirm_cancel ord) s = Inr (process s (confirm_cancel ord))
         \<and> availableCash (process s (confirm_cancel ord)) = availableCash s
         \<and> availableAssetsDict (process s (confirm_cancel ord)) =
            (availableAssetsDict s)(asset_name ord \<mapsto>
               js_add (availableAssetsDict s (asset_name ord)) (num_of_int (volume ord))))"
proof -
  have m: "on_message (confirm_cancel ord) s = handle_confirm_cancel ord s"
    by (simp add: on_message_def confirm_cancel_def message_handlers_def)
  have r: "remove_order ord s =
      s\<lparr>emitted := emitted s @ [Warn (order_id ord) (if is_bid ord then ''bids'' else ''asks'')]\<rparr>"
    using assms by (rule remove_order_absent)
  have foreign: "pcode ord \<noteq> this_pcode s \<Longrightarrow> handle_confirm_cancel ord s =
      Inr (s\<lparr>emitted := emitted s @ [Warn (order_id ord) (if is_bid ord then ''bids'' else ''asks''),
                Dispatched (ConfirmOrderCancel ord)]\<rparr>)"
    unfolding handle_confirm_cancel_def r by (simp add: Let_def dispatchEvent_def)
  have bid: "pcode ord = this_pcode s \<Longrightarrow> is_bid ord \<Longrightarrow> handle_confirm_cancel ord s =
      Inr (s\<lparr>emitted := emitted s @ [Warn (order_id ord) ''bids'', Dispatched (ConfirmOrderCancel ord)],
             availableCash := js_plus (availableCash s)
               (js_times (num_of_int (price ord)) (num_of_int (volume ord)))\<rparr>)"
    unfolding handle_confirm_cancel_def r by (simp add: Let_def dispatchEvent_def)
  have ask: "pcode ord = this_pcode s \<Longrightarrow> \<not> is_bid ord \<Longrightarrow> plain_name (asset_name ord) \<Longrightarrow>
      handle_confirm_cancel ord s =
      Inr (s\<lparr>emitted := emitted s @ [Warn (order_id ord) ''asks'', Dispatched (ConfirmOrderCancel ord)],
             availableAssetsDict := (availableAssetsDict s)(asset_name ord \<mapsto>
               js_add (availableAssetsDict s (asset_name ord)) (num_of_int (volume ord)))\<rparr>)"
    unfolding handle_confirm_cancel_def r
    by (simp add: Let_def dispatchEvent_def update_subproperty_plain)
  show ?thesis
    using stale_cancel_always [OF assms] foreign bid ask
    by (auto simp: m)
qed

theorem stale_cancel_keeps_books_and_settled_witness:
  "order_id (mk_order 7 True 5 1.0 ''P2'') \<notin>
     order_id ` set (book (is_bid (mk_order 7 True 5 1.0 ''P2'')) (resting_state ''P1''))
   \<and> pcode (mk_order 7 True 5 1.0 ''P2'') \<noteq> this_pcode (resting_state ''P1'')
   \<and> bids (process (resting_state ''P1'') (confirm_cancel (mk_order 7 True 5 1.0 ''P2'')))
       = bids (resting_state ''P1'')
   \<and> availableCash (process (resting_state ''P1'') (confirm_cancel (mk_order 7 True 5 1.0 ''P2'')))
       = Num 100
   \<and> emitted (process (resting_state ''P1'') (confirm_cancel (mk_order 7 True 5 1.0 ''P2''))) =
       [Warn 7 ''bids'', Dispatched (ConfirmOrderCancel (mk_order 7 True 5 1.0 ''P2''))]
   \<and> order_id (mk_order 8 True 5 1.0 ''P1'') \<notin>
     order_id ` set (book (is_bid (mk_order 8 True 5 1.0 ''P1'')) (resting_state ''P1''))
   \<and> pcode (mk_order 8 True 5 1.0 ''P1'') = this_pcode (resting_state ''P1'')
   \<and> is_bid (mk_order 8 True 5 1.0 ''P1'')
   \<and> availableCash (process (resting_state ''P1'') (confirm_cancel (mk_order 8 True 5 1.0 ''P1'')))
       = Num 105
   \<and> settledCash (process (resting_state ''P1'') (confirm_cancel (mk_order 8 True 5 1.0 ''P1'')))
       = Num 100
   \<and> order_id (mk_order 9 False 5 1.0 ''P1'') \<notin>
     order_id ` set (book (is_bid (mk_order 9 False 5 1.0 ''P1'')) (resting_state ''P1''))
   \<and> pcode (mk_order 9 False 5 1.0 ''P1'') = this_pcode (resting_state ''P1'')
   \<and> \<not> is_bid (mk_order 9 False 5 1.0 ''P1'')
   \<and> plain_name (asset_name (mk_order 9 False 5 1.0 ''P1''))
   \<and> asks (process (resting_state ''P1'') (confirm_cancel (mk_order 9 False 5 1.0 ''P1'')))
       = asks (resting_state ''P1'')
   \<and> availableAssetsDict (process (resting_state ''P1'') (confirm_cancel (mk_order 9 False 5 1.0 ''P1'')))
       ''A'' = Some (Num 6)
   \<and> settledAssetsDict (process (resting_state ''P1'') (confirm_cancel (mk_order 9 False 5 1.0 ''P1'')))
       ''A'' = Some (Num 5)"
proof -
  let ?s = "resting_state ''P1''"
  let ?o7 = "mk_order 7 True 5 1.0 ''P2''"
  let ?o8 = "mk_order 8 True 5 1.0 ''P1''"
  let ?o9 = "mk_order 9 False 5 1.0 ''P1''"
  have a7: "order_id ?o7 \<notin> order_id ` set (book (is_bid ?o7) ?s)"
    and a8: "order_id ?o8 \<notin> order_id ` set (book (is_bid ?o8) ?s)"
    and a9: "order_id ?o9 \<notin> order_id ` set (book (is_bid ?o9) ?s)"
    by (simp_all add: book_def resting_state_def mk_order_def)
  have p7: "pcode ?o7 \<noteq> this_pcode ?s"
    and p8: "pcode ?o8 = this_pcode ?s \<and> is_bid ?o8"
    and p9: "pcode ?o9 = this_pcode ?s \<and> \<not> is_bid ?o9 \<and> plain_name (asset_name ?o9)"
    by (simp_all add: resting_state_def mk_order_def plain_name_def object_prototype_names_def)
  note t7 = stale_cancel_keeps_books_and_settled [OF a7]
  note t8 = stale_cancel_keeps_books_and_settled [OF a8]
  note t9 = stale_cancel_keeps_books_and_settled [OF a9]
  have c7: "bids (process ?s (confirm_cancel ?o7)) = bids ?s"
    using t7 by blast
  have d7: "availableCash (process ?s (confirm_cancel ?o7)) = availableCash ?s"
    and e7: "emitted (process ?s (confirm_cancel ?o7)) =
      emitted ?s @ [Warn (order_id ?o7) (if is_bid ?o7 then ''bids'' else ''asks''),
                    Dispatched (ConfirmOrderCancel ?o7)]"
    using t7 p7 by blast+
  have c8: "availableCash (process ?s (confirm_cancel ?o8)) =
      js_plus (availableCash ?s) (js_times (num_of_int (price ?o8)) (num_of_int (volume ?o8)))"
    using t8 p8 by blast
  have d8: "settledCash (process ?s (confirm_cancel ?o8)) = settledCash ?s"
    using t8 by blast
  have c9: "asks (process ?s (confirm_cancel ?o9)) = asks ?s"
    and d9: "settledAssetsDict (process ?s (confirm_cancel ?o9)) = settledAssetsDict ?s"
    using t9 by blast+
  have e9: "availableAssetsDict (process ?s (confirm_cancel ?o9)) =
      (availableAssetsDict ?s)(asset_name ?o9 \<mapsto>
         js_add (availableAssetsDict ?s (asset_name ?o9)) (num_of_int (volume ?o9)))"
    using t9 p9 by blast
  have n8: "js_plus (Num 100) (js_times (num_of_int 5) (num_of_int 1)) = Num 105"
    and n9: "js_plus (Num 5) (num_of_int 1) = Num 6"
    by (simp_all add: num_of_int_def)
  have v7: "availableCash (process ?s (confirm_cancel ?o7)) = Num 100"
    unfolding d7 by (simp add: resting_state_def)
  have w7: "emitted (process ?s (confirm_cancel ?o7)) =
      [Warn 7 ''bids'', Dispatched (ConfirmOrderCancel ?o7)]"
    unfolding e7 by (simp add: resting_state_def mk_order_def)
  have v8: "availableCash (process ?s (confirm_cancel ?o8)) = Num 105"
    unfolding c8 using n8 by (simp add: resting_state_def mk_order_def)
  have w8: "settledCash (process ?s (confirm_cancel ?o8)) = Num 100"
    unfolding d8 by (simp add: resting_state_def)
  have v9: "availableAssetsDict (process ?s (confirm_cancel ?o9)) ''A'' = Some (Num 6)"
    unfolding e9 using n9 by (simp add: resting_state_def mk_order_def)
  have w9: "settledAssetsDict (process ?s (confirm_cancel ?o9)) ''A'' = Some (Num 5)"
    unfolding d9 by (simp add: resting_state_def)
  from a7 a8 a9 p7 p8 p9 c7 v7 w7 v8 w8 c9 v9 w9 show ?thesis
    by blast
qed

text \<open>
  C3 as stated fails for an order of the viewer: the cancel of a bid that is in no book
  still adds \<open>price * volume\<close> to \<open>availableCash\<close>.
\<close>

theorem stale_own_cancel_credits_cash:
  "order_id (mk_order 7 True 5 1.0 ''P1'') \<notin>
     order_id ` set (book (is_bid (mk_order 7 True 5 1.0 ''P1'')) (initial_state ''P1''))
   \<and> availableCash (process (initial_state ''P1'') (confirm_cancel (mk_order 7 True 5 1.0 ''P1'')))
       \<noteq> availableCash (initial_state ''P1'')"
proof -
  have "availableCash (process (initial_state ''P1'') (confirm_cancel (mk_order 7 True 5 1.0 ''P1'')))
      = js_plus (Num 0) (js_times (num_of_int 5) (num_of_int 1))"
    by (simp add: initial_state_def mk_order_def handle_confirm_cancel_def Let_def
          dispatchEvent_def remove_order_def scan_0)
  moreover have "js_plus (Num 0) (js_times (num_of_int 5) (num_of_int 1)) = Num 5"
    by (simp add: num_of_int_def)
  ultimately show ?thesis
    by (simp add: book_def initial_state_def mk_order_def)
qed

section \<open>Entry followed by cancellation\<close>

lemma own_bid_enter:
  assumes "pcode ord = this_pcode s" and "is_bid ord"
  shows "availableCash (state_of (handle_confirm_enter ord s)) =
      js_minus (availableCash s) (js_times (num_of_int (price ord)) (num_of_int (volume ord)))"
    and "availableAssetsDict (state_of (handle_confirm_enter ord s)) = availableAssetsDict s"
    and "this_pcode (state_of (handle_confirm_enter ord s)) = this_pcode s"
  using assms by (simp_all add: handle_confirm_enter_def insert_bid_def Let_def dispatchEvent_def)

lemma own_bid_cancel:
  assumes "pcode ord = this_pcode s" and "is_bid ord"
  shows "availableCash (state_of (handle_confirm_cancel ord s)) =
      js_plus (availableCash s) (js_times (num_of_int (price ord)) (num_of_int (volume ord)))"
    and "availableAssetsDict (state_of (handle_confirm_cancel ord s)) = availableAssetsDict s"
  using assms by (simp_all add: handle_confirm_cancel_def Let_def dispatchEvent_def)

lemma own_ask_enter:
  assumes "pcode ord = this_pcode s" and "\<not> is_bid ord"
    and "CHR ''.'' \<notin> set (asset_name ord)" and "availableAssetsDict s (asset_name ord) = Some y"
  shows "availableCash (state_of (handle_confirm_enter ord s)) = availableCash s"
    and "availableAssetsDict (state_of (handle_confirm_enter ord s)) =
      (availableAssetsDict s)(asset_name ord \<mapsto> js_plus y (js_neg (num_of_int (volume ord))))"
    and "this_pcode (state_of (handle_confirm_enter ord s)) = this_pcode s"
  using assms
  by (simp_all add: handle_confirm_enter_def insert_ask_def Let_def dispatchEvent_def
        update_subproperty_entry)

lemma own_ask_cancel:
  assumes "pcode ord = this_pcode s" and "\<not> is_bid ord"
    and "CHR ''.'' \<notin> set (asset_name ord)" and "availableAssetsDict s (asset_name ord) = Some y"
  shows "availableCash (state_of (handle_confirm_cancel ord s)) = availableCash s"
    and "availableAssetsDict (state_of (handle_confirm_cancel ord s)) =
      (availableAssetsDict s)(asset_name ord \<mapsto> js_plus y (num_of_int (volume ord)))"
  using assms
  by (simp_all add: handle_confirm_cancel_def Let_def dispatchEvent_def update_subproperty_entry)

text \<open>
  C5, as the code has it. For an order of the viewer, \<open>confirm_enter\<close> followed by
  \<open>confirm_cancel\<close> of the same order restores \<open>availableCash\<close> and
  \<open>availableAssetsDict\<close> where the arithmetic is exact and the entry is written: for
  a bid, \<open>availableCash\<close>, \<open>price\<close>, \<open>volume\<close>, \<open>price * volume\<close> and
  \<open>availableCash - price * volume\<close> are integers of magnitude at most \<open>2^53\<close>; for an
  ask, the asset name has no dot and is a key of \<open>availableAssetsDict\<close> whose entry,
  \<open>volume\<close> and the entry minus \<open>volume\<close> are integers of magnitude at most
  \<open>2^53\<close>.
\<close>

theorem enter_then_cancel_restores_available:
  assumes "pcode ord = this_pcode s"
    and "is_bid ord \<longrightarrow>
           availableCash s = Num (of_int c) \<and> \<bar>c\<bar> \<le> 2 ^ 53
           \<and> \<bar>price ord\<bar> \<le> 2 ^ 53 \<and> \<bar>volume ord\<bar> \<le> 2 ^ 53
           \<and> \<bar>price ord * volume ord\<bar> \<le> 2 ^ 53
           \<and> \<bar>c - price ord * volume ord\<bar> \<le> 2 ^ 53"
    and "\<not> is_bid ord \<longrightarrow>
           CHR ''.'' \<notin> set (asset_name ord)
           \<and> availableAssetsDict s (asset_name ord) = Some (Num (of_int x)) \<and> \<bar>x\<bar> \<le> 2 ^ 53
           \<and> \<bar>volume ord\<bar> \<le> 2 ^ 53 \<and> \<bar>x - volume ord\<bar> \<le> 2 ^ 53"
  shows "availableCash (run s [confirm_enter ord, confirm_cancel ord]) = availableCash s
    \<and> availableAssetsDict (run s [confirm_enter ord, confirm_cancel ord]) = availableAssetsDict s"
proof (cases "is_bid ord")
  case True
  let ?t = "state_of (handle_confirm_enter ord s)"
  let ?pv = "js_times (num_of_int (price ord)) (num_of_int (volume ord))"
  from True assms(2) have c: "availableCash s = Num (of_int c)" and bc: "\<bar>c\<bar> \<le> 2 ^ 53"
    and bp: "\<bar>price ord\<bar> \<le> 2 ^ 53" and bv: "\<bar>volume ord\<bar> \<le> 2 ^ 53"
    and bpv: "\<bar>price ord * volume ord\<bar> \<le> 2 ^ 53"
    and bd: "\<bar>c - price ord * volume ord\<bar> \<le> 2 ^ 53"
    by simp_all
  have pv: "?pv = Num (of_int (price ord * volume ord))"
    using bp bv bpv by (simp only: num_of_int_safe js_times_int)
  have t: "availableCash ?t = Num (of_int (c - price ord * volume ord))"
    unfolding own_bid_enter(1) [OF assms(1) True] c pv using bd by (rule js_minus_int)
  have own: "pcode ord = this_pcode ?t"
    using assms(1) own_bid_enter(3) [OF assms(1) True] by simp
  have "availableCash (state_of (handle_confirm_cancel ord ?t)) =
      js_plus (Num (of_int (c - price ord * volume ord))) (Num (of_int (price ord * volume ord)))"
    unfolding own_bid_cancel(1) [OF own True] t pv ..
  also have "\<dots> = Num (of_int c)"
    using js_plus_int [of "c - price ord * volume ord" "price ord * volume ord"] bc by simp
  finally have "availableCash (state_of (handle_confirm_cancel ord ?t)) = availableCash s"
    using c by simp
  moreover have "availableAssetsDict (state_of (handle_confirm_cancel ord ?t)) = availableAssetsDict s"
    unfolding own_bid_cancel(2) [OF own True] own_bid_enter(2) [OF assms(1) True] ..
  ultimately show ?thesis by (simp add: run_def)
next
  case False
  let ?t = "state_of (handle_confirm_enter ord s)"
  let ?a = "asset_name ord"
  from False assms(3) have nd: "CHR ''.'' \<notin> set ?a"
    and e: "availableAssetsDict s ?a = Some (Num (of_int x))" and bx: "\<bar>x\<bar> \<le> 2 ^ 53"
    and bv: "\<bar>volume ord\<bar> \<le> 2 ^ 53" and bd: "\<bar>x - volume ord\<bar> \<le> 2 ^ 53"
    by simp_all
  have v: "num_of_int (volume ord) = Num (of_int (volume ord))"
    using bv by (rule num_of_int_safe)
  have m: "js_plus (Num (of_int x)) (js_neg (num_of_int (volume ord))) = Num (of_int (x - volume ord))"
    using js_minus_int [OF bd] by (simp add: v js_minus_def)
  have td: "availableAssetsDict ?t = (availableAssetsDict s)(?a \<mapsto> Num (of_int (x - volume ord)))"
    unfolding own_ask_enter(2) [OF assms(1) False nd e] m ..
  then have te: "availableAssetsDict ?t ?a = Some (Num (of_int (x - volume ord)))" by simp
  have own: "pcode ord = this_pcode ?t"
    using assms(1) own_ask_enter(3) [OF assms(1) False nd e] by simp
  have p: "js_plus (Num (of_int (x - volume ord))) (num_of_int (volume ord)) = Num (of_int x)"
    using js_plus_int [of "x - volume ord" "volume ord"] bx by (simp add: v)
  have "availableAssetsDict (state_of (handle_confirm_cancel ord ?t)) =
      (availableAssetsDict ?t)(?a \<mapsto> Num (of_int x))"
    unfolding own_ask_cancel(2) [OF own False nd te] p ..
  also have "\<dots> = availableAssetsDict s"
    unfolding td using e by (simp add: fun_upd_idem)
  finally have "availableAssetsDict (state_of (handle_confirm_cancel ord ?t)) = availableAssetsDict s" .
  moreover have "availableCash (state_of (handle_confirm_cancel ord ?t)) = availableCash s"
    unfolding own_ask_cancel(1) [OF own False nd te] own_ask_enter(1) [OF assms(1) False nd e] ..
  ultimately show ?thesis by (simp add: run_def)
qed

theorem enter_then_cancel_restores_available_witness:
  "pcode (mk_order 1 True 5 1.0 ''P1'') = this_pcode (funded_state ''P1'')
   \<and> is_bid (mk_order 1 True 5 1.0 ''P1'')
   \<and> availableCash (funded_state ''P1'') = Num (of_int 100)
   \<and> availableCash (process (funded_state ''P1'') (confirm_enter (mk_order 1 True 5 1.0 ''P1'')))
       = Num 95
   \<and> availableCash (run (funded_state ''P1'')
        [confirm_enter (mk_order 1 True 5 1.0 ''P1''), confirm_cancel (mk_order 1 True 5 1.0 ''P1'')])
       = Num 100
   \<and> pcode (mk_order 2 False 5 1.0 ''P1'') = this_pcode (funded_state ''P1'')
   \<and> \<not> is_bid (mk_order 2 False 5 1.0 ''P1'')
   \<and> CHR ''.'' \<notin> set (asset_name (mk_order 2 False 5 1.0 ''P1''))
   \<and> availableAssetsDict (funded_state ''P1'') (asset_name (mk_order 2 False 5 1.0 ''P1''))
       = Some (Num (of_int 5))
   \<and> availableAssetsDict (process (funded_state ''P1'') (confirm_enter (mk_order 2 False 5 1.0 ''P1'')))
       ''A'' = Some (Num 4)
   \<and> availableAssetsDict (run (funded_state ''P1'')
        [confirm_enter (mk_order 2 False 5 1.0 ''P1''), confirm_cancel (mk_order 2 False 5 1.0 ''P1'')])
       ''A'' = Some (Num 5)"
proof -
  let ?s = "funded_state ''P1''"
  let ?b = "mk_order 1 True 5 1.0 ''P1''"
  let ?a = "mk_order 2 False 5 1.0 ''P1''"
  have ob: "pcode ?b = this_pcode ?s" and ib: "is_bid ?b"
    and cb: "availableCash ?s = Num (of_int 100)"
    and oa: "pcode ?a = this_pcode ?s" and ia: "\<not> is_bid ?a"
    and na: "CHR ''.'' \<notin> set (asset_name ?a)"
    and ea: "availableAssetsDict ?s (asset_name ?a) = Some (Num (of_int 5))"
    by (simp_all add: funded_state_def mk_order_def)
  have hb: "is_bid ?b \<longrightarrow>
           availableCash ?s = Num (of_int 100) \<and> \<bar>100 :: int\<bar> \<le> 2 ^ 53
           \<and> \<bar>price ?b\<bar> \<le> 2 ^ 53 \<and> \<bar>volume ?b\<bar> \<le> 2 ^ 53
           \<and> \<bar>price ?b * volume ?b\<bar> \<le> 2 ^ 53
           \<and> \<bar>100 - price ?b * volume ?b\<bar> \<le> 2 ^ 53"
    using cb by (simp add: mk_order_def)
  have hb': "\<not> is_bid ?b \<longrightarrow>
           CHR ''.'' \<notin> set (asset_name ?b)
           \<and> availableAssetsDict ?s (asset_name ?b) = Some (Num (of_int 5)) \<and> \<bar>5 :: int\<bar> \<le> 2 ^ 53
           \<and> \<bar>volume ?b\<bar> \<le> 2 ^ 53 \<and> \<bar>5 - volume ?b\<bar> \<le> 2 ^ 53"
    using ib by simp
  have ha: "is_bid ?a \<longrightarrow>
           availableCash ?s = Num (of_int 100) \<and> \<bar>100 :: int\<bar> \<le> 2 ^ 53
           \<and> \<bar>price ?a\<bar> \<le> 2 ^ 53 \<and> \<bar>volume ?a\<bar> \<le> 2 ^ 53
           \<and> \<bar>price ?a * volume ?a\<bar> \<le> 2 ^ 53
           \<and> \<bar>100 - price ?a * volume ?a\<bar> \<le> 2 ^ 53"
    using ia by simp
  have ha': "\<not> is_bid ?a \<longrightarrow>
           CHR ''.'' \<notin> set (asset_name ?a)
           \<and> availableAssetsDict ?s (asset_name ?a) = Some (Num (of_int 5)) \<and> \<bar>5 :: int\<bar> \<le> 2 ^ 53
           \<and> \<bar>volume ?a\<bar> \<le> 2 ^ 53 \<and> \<bar>5 - volume ?a\<bar> \<le> 2 ^ 53"
    using na ea by (simp add: mk_order_def)
  note tb = enter_then_cancel_restores_available [OF ob hb hb']
  note ta = enter_then_cancel_restores_available [OF oa ha ha']
  have rb: "availableCash (run ?s [confirm_enter ?b, confirm_cancel ?b]) = Num 100"
    using tb by (simp add: funded_state_def)
  have ra: "availableAssetsDict (run ?s [confirm_enter ?a, confirm_cancel ?a]) ''A'' = Some (Num 5)"
    using ta by (simp add: funded_state_def)
  have n1: "js_minus (Num 100) (js_times (num_of_int 5) (num_of_int 1)) = Num 95"
    and n2: "js_plus (Num 5) (js_neg (num_of_int 1)) = Num 4"
    by (simp_all add: num_of_int_def js_minus_def)
  have mb: "availableCash (process ?s (confirm_enter ?b)) = Num 95"
    using own_bid_enter(1) [OF ob ib] n1 by (simp add: funded_state_def mk_order_def)
  have ma: "availableAssetsDict (process ?s (confirm_enter ?a)) ''A'' = Some (Num 4)"
    using own_ask_enter(2) [OF oa ia na, of "Num 5"] n2 by (simp add: funded_state_def mk_order_def)
  from ob ib cb mb rb oa ia na ea ma ra show ?thesis by blast
qed

text \<open>
  C5 as stated fails where the asset of the viewer's ask is not a key of
  \<open>availableAssetsDict\<close>: the entry reads \<open>undefined\<close>, stores \<open>NaN\<close> under the key,
  and the cancel leaves \<open>NaN\<close> there, so the dictionary has an entry it did not have.
\<close>

theorem enter_then_cancel_unknown_asset_leaves_NaN:
  "pcode (mk_order 2 False 5 1.0 ''P1'') = this_pcode (initial_state ''P1'')
   \<and> availableAssetsDict (run (initial_state ''P1'')
        [confirm_enter (mk_order 2 False 5 1.0 ''P1''), confirm_cancel (mk_order 2 False 5 1.0 ''P1'')])
      \<noteq> availableAssetsDict (initial_state ''P1'')"
proof -
  have "availableAssetsDict (run (initial_state ''P1'')
        [confirm_enter (mk_order 2 False 5 1.0 ''P1''), confirm_cancel (mk_order 2 False 5 1.0 ''P1'')]) ''A''
      = Some NaN"
    by (simp add: run_def handle_confirm_enter_def handle_confirm_cancel_def insert_ask_def
          Let_def dispatchEvent_def update_subproperty_def mk_order_def initial_state_def
          object_prototype_names_def num_of_int_def)
  moreover have "availableAssetsDict (initial_state ''P1'') ''A'' = None"
    by (simp add: initial_state_def)
  ultimately show ?thesis
    by (auto simp: mk_order_def initial_state_def)
qed

section \<open>Trade legs\<close>

lemma split_dots_A_B: "split_dots ''A.B'' = [''A'', ''B'']"
  by simp

text \<open>
  C6, as the code has it. A trade leg with integer price \<open>p\<close> and traded volume \<open>v\<close>
  on an asset \<open>a\<close> whose name has no dot and is a key of both dictionaries, in a state
  whose entries for \<open>a\<close> and whose cash quantities are integers, all operands and
  results of magnitude at most \<open>2^53\<close>: for a bid, \<open>v\<close> is added to the entry of
  \<open>a\<close> in \<open>availableAssetsDict\<close> and in \<open>settledAssetsDict\<close> and \<open>p * v\<close> is
  subtracted from \<open>availableCash\<close> and from \<open>settledCash\<close>; for an ask the deltas are
  the opposite ones. The update returns and nothing else in the state changes.
\<close>

theorem update_holdings_deltas:
  assumes "CHR ''.'' \<notin> set a"
    and "availableAssetsDict s a = Some (Num (of_int x))"
    and "settledAssetsDict s a = Some (Num (of_int y))"
    and "availableCash s = Num (of_int c)" and "settledCash s = Num (of_int d)"
    and "\<bar>p\<bar> \<le> 2 ^ 53" and "\<bar>v\<bar> \<le> 2 ^ 53" and "\<bar>p * v\<bar> \<le> 2 ^ 53"
  shows "(\<bar>x + v\<bar> \<le> 2 ^ 53 \<and> \<bar>y + v\<bar> \<le> 2 ^ 53
          \<and> \<bar>c - p * v\<bar> \<le> 2 ^ 53 \<and> \<bar>d - p * v\<bar> \<le> 2 ^ 53 \<longrightarrow>
        update_holdings (num_of_int p) (num_of_int v) True a s =
          Inr (s\<lparr>availableAssetsDict := (availableAssetsDict s)(a \<mapsto> Num (of_int (x + v))),
                 settledAssetsDict := (settledAssetsDict s)(a \<mapsto> Num (of_int (y + v))),
                 availableCash := Num (of_int (c - p * v)),
                 settledCash := Num (of_int (d - p * v))\<rparr>))
    \<and> (\<bar>x - v\<bar> \<le> 2 ^ 53 \<and> \<bar>y - v\<bar> \<le> 2 ^ 53
          \<and> \<bar>c + p * v\<bar> \<le> 2 ^ 53 \<and> \<bar>d + p * v\<bar> \<le> 2 ^ 53 \<longrightarrow>
        update_holdings (num_of_int p) (num_of_int v) False a s =
          Inr (s\<lparr>availableAssetsDict := (availableAssetsDict s)(a \<mapsto> Num (of_int (x - v))),
                 settledAssetsDict := (settledAssetsDict s)(a \<mapsto> Num (of_int (y - v))),
                 availableCash := Num (of_int (c + p * v)),
                 settledCash := Num (of_int (d + p * v))\<rparr>))"
proof (intro conjI impI)
  have np: "num_of_int p = Num (of_int p)" and nv: "num_of_int v = Num (of_int v)"
    using assms(6,7) by (simp_all add: num_of_int_safe)
  have pv: "js_times (Num (of_int p)) (Num (of_int v)) = Num (of_int (p * v))"
    using assms(8) by (rule js_times_int)
  {
    assume b: "\<bar>x + v\<bar> \<le> 2 ^ 53 \<and> \<bar>y + v\<bar> \<le> 2 ^ 53
          \<and> \<bar>c - p * v\<bar> \<le> 2 ^ 53 \<and> \<bar>d - p * v\<bar> \<le> 2 ^ 53"
    have n: "js_plus (Num (of_int x)) (Num (of_int v)) = Num (of_int (x + v))"
      "js_plus (Num (of_int y)) (Num (of_int v)) = Num (of_int (y + v))"
      "js_minus (Num (of_int c)) (Num (of_int (p * v))) = Num (of_int (c - p * v))"
      "js_minus (Num (of_int d)) (Num (of_int (p * v))) = Num (of_int (d - p * v))"
      using b by (simp_all only: js_plus_int js_minus_int)
    show "update_holdings (num_of_int p) (num_of_int v) True a s =
          Inr (s\<lparr>availableAssetsDict := (availableAssetsDict s)(a \<mapsto> Num (of_int (x + v))),
                 settledAssetsDict := (settledAssetsDict s)(a \<mapsto> Num (of_int (y + v))),
                 availableCash := Num (of_int (c - p * v)),
                 settledCash := Num (of_int (d - p * v))\<rparr>)"
      unfolding np nv update_holdings_def
      using assms(2-5) n pv
      by (simp add: update_subproperty_entry [OF assms(1)] Let_def)
  }
  {
    assume b: "\<bar>x - v\<bar> \<le> 2 ^ 53 \<and> \<bar>y - v\<bar> \<le> 2 ^ 53
          \<and> \<bar>c + p * v\<bar> \<le> 2 ^ 53 \<and> \<bar>d + p * v\<bar> \<le> 2 ^ 53"
    have n: "js_plus (Num (of_int x)) (Num (- of_int v)) = Num (of_int (x - v))"
      "js_plus (Num (of_int y)) (Num (- of_int v)) = Num (of_int (y - v))"
      "js_plus (Num (of_int c)) (Num (of_int (p * v))) = Num (of_int (c + p * v))"
      "js_plus (Num (of_int d)) (Num (of_int (p * v))) = Num (of_int (d + p * v))"
      using b js_minus_int [of x v] js_minus_int [of y v]
      by (simp_all only: js_plus_int js_minus_def js_neg.simps)
    show "update_holdings (num_of_int p) (num_of_int v) False a s =
          Inr (s\<lparr>availableAssetsDict := (availableAssetsDict s)(a \<mapsto> Num (of_int (x - v))),
                 settledAssetsDict := (settledAssetsDict s)(a \<mapsto> Num (of_int (y - v))),
                 availableCash := Num (of_int (c + p * v)),
                 settledCash := Num (of_int (d + p * v))\<rparr>)"
      unfolding np nv update_holdings_def
      using assms(2-5) n pv
      by (simp add: update_subproperty_entry [OF assms(1)] Let_def)
  }
qed

theorem update_holdings_deltas_witness:
  "CHR ''.'' \<notin> set ''A''
   \<and> availableAssetsDict (funded_state ''P1'') ''A'' = Some (Num (of_int 5))
   \<and> settledAssetsDict (funded_state ''P1'') ''A'' = Some (Num (of_int 5))
   \<and> availableCash (funded_state ''P1'') = Num (of_int 100)
   \<and> settledCash (funded_state ''P1'') = Num (of_int 100)
   \<and> update_holdings (num_of_int 10) (num_of_int 3) True ''A'' (funded_state ''P1'') =
       Inr ((funded_state ''P1'')\<lparr>availableAssetsDict := [''A'' \<mapsto> Num 8],
              settledAssetsDict := [''A'' \<mapsto> Num 8],
              availableCash := Num 70, settledCash := Num 70\<rparr>)
   \<and> update_holdings (num_of_int 10) (num_of_int 3) False ''A'' (funded_state ''P1'') =
       Inr ((funded_state ''P1'')\<lparr>availableAssetsDict := [''A'' \<mapsto> Num 2],
              settledAssetsDict := [''A'' \<mapsto> Num 2],
              availableCash := Num 130, settledCash := Num 130\<rparr>)"
proof -
  let ?s = "funded_state ''P1''"
  have h: "CHR ''.'' \<notin> set ''A''"
    "availableAssetsDict ?s ''A'' = Some (Num (of_int 5))"
    "settledAssetsDict ?s ''A'' = Some (Num (of_int 5))"
    "availableCash ?s = Num (of_int 100)" "settledCash ?s = Num (of_int 100)"
    "\<bar>10 :: int\<bar> \<le> 2 ^ 53" "\<bar>3 :: int\<bar> \<le> 2 ^ 53" "\<bar>10 * 3 :: int\<bar> \<le> 2 ^ 53"
    by (simp_all add: funded_state_def)
  note t = update_holdings_deltas [OF h]
  have b1: "\<bar>5 + 3 :: int\<bar> \<le> 2 ^ 53 \<and> \<bar>5 + 3 :: int\<bar> \<le> 2 ^ 53
          \<and> \<bar>100 - 10 * 3 :: int\<bar> \<le> 2 ^ 53 \<and> \<bar>100 - 10 * 3 :: int\<bar> \<le> 2 ^ 53"
    and b2: "\<bar>5 - 3 :: int\<bar> \<le> 2 ^ 53 \<and> \<bar>5 - 3 :: int\<bar> \<le> 2 ^ 53
          \<and> \<bar>100 + 10 * 3 :: int\<bar> \<le> 2 ^ 53 \<and> \<bar>100 + 10 * 3 :: int\<bar> \<le> 2 ^ 53"
    by simp_all
  have u1: "update_holdings (num_of_int 10) (num_of_int 3) True ''A'' ?s =
       Inr (?s\<lparr>availableAssetsDict := [''A'' \<mapsto> Num 8],
              settledAssetsDict := [''A'' \<mapsto> Num 8],
              availableCash := Num 70, settledCash := Num 70\<rparr>)"
    using t [THEN conjunct1, rule_format, OF b1] by (simp add: funded_state_def)
  have u2: "update_holdings (num_of_int 10) (num_of_int 3) False ''A'' ?s =
       Inr (?s\<lparr>availableAssetsDict := [''A'' \<mapsto> Num 2],
              settledAssetsDict := [''A'' \<mapsto> Num 2],
              availableCash := Num 130, settledCash := Num 130\<rparr>)"
    using t [THEN conjunct2, rule_format, OF b2] by (simp add: funded_state_def)
  from h(1-5) u1 u2 show ?thesis by blast
qed

text \<open>
  C6 as stated fails for an asset named \<open>A.B\<close>: both dictionaries hold 5 under that
  name, the leg of a bid with price 10 and volume 3 takes 30 from both cash quantities,
  and the two entries are still 5, because the path \<open>A.B\<close> is walked as \<open>A\<close> then
  \<open>B\<close> and nothing is written.
\<close>

theorem update_holdings_leaves_dotted_entry:
  "availableAssetsDict (dotted_state ''P1'') ''A.B'' = Some (Num 5)
   \<and> settledAssetsDict (dotted_state ''P1'') ''A.B'' = Some (Num 5)
   \<and> update_holdings (num_of_int 10) (num_of_int 3) True ''A.B'' (dotted_state ''P1'') =
       Inr ((dotted_state ''P1'')\<lparr>availableCash := Num 70, settledCash := Num 70\<rparr>)"
proof -
  have n: "js_minus (Num 100) (js_times (num_of_int 10) (num_of_int 3)) = Num 70"
    by (simp add: num_of_int_def js_minus_def)
  have u: "\<And>pr t. availableAssetsDict t = [''A.B'' \<mapsto> Num 5] \<Longrightarrow>
      settledAssetsDict t = [''A.B'' \<mapsto> Num 5] \<Longrightarrow>
      update_subproperty pr ''A.B'' (num_of_int 3) t = Inr t"
    by (auto simp: update_subproperty_def Let_def object_prototype_names_def
          split: dict_property.splits)
  have "update_holdings (num_of_int 10) (num_of_int 3) True ''A.B'' (dotted_state ''P1'') =
       Inr ((dotted_state ''P1'')\<lparr>availableCash := Num 70, settledCash := Num 70\<rparr>)"
    unfolding update_holdings_def
    using n u [of "dotted_state ''P1''"]
    by (simp add: dotted_state_def Let_def)
  then show ?thesis by (simp add: dotted_state_def)
qed

section \<open>Removal of orders by a trade\<close>

lemma remove_first_takeWhile:
  "takeWhile (\<lambda>x. \<not> order_id x = i) xs @ tl (dropWhile (\<lambda>x. \<not> order_id x = i) xs)
     = remove_first i xs"
  by (induction xs) simp_all

lemma remove_first_absent: "i \<notin> order_id ` set xs \<Longrightarrow> remove_first i xs = xs"
  by (induction xs) auto

lemma book_remove_order:
  "book b (remove_order ord s) =
     (if b = is_bid ord then remove_first (order_id ord) (book b s) else book b s)"
proof (cases "order_id ord \<in> order_id ` set (book (is_bid ord) s)")
  case False
  then show ?thesis
    by (simp add: remove_order_absent remove_first_absent book_def)
next
  case True
  then have "\<not> (\<forall>x \<in> set (book (is_bid ord) s). \<not> order_id x = order_id ord)"
    by auto
  then have "\<not> scan (\<lambda>x. order_id x = order_id ord) (book (is_bid ord) s) 0
      \<ge> length (book (is_bid ord) s)"
    by (simp add: scan_not_found)
  then show ?thesis
    by (auto simp: remove_order_def book_def Let_def splice_delete_scan remove_first_takeWhile)
qed

lemma book_holdings_only: "holdings_only s t \<Longrightarrow> book b t = book b s"
  by (simp add: holdings_only_def book_def)

lemma update_holdings_plain:
  "plain_name a \<Longrightarrow> update_holdings p v b a s = Inr (on_trade_leg p v b a s)"
  by (simp add: update_holdings_def on_trade_leg_def update_subproperty_plain Let_def)

lemma on_trade_leg_frame [simp]:
  "holdings_only s (on_trade_leg p v b a s)"
  by (simp add: holdings_only_def on_trade_leg_def)

lemma this_pcode_on_trade_leg [simp]: "this_pcode (on_trade_leg p v b a s) = this_pcode s"
  by (simp add: on_trade_leg_def)

lemma leg_updates_frame [simp]: "holdings_only s (leg_updates taking s m)"
proof -
  have "holdings_only s (if pcode m = this_pcode s
        then on_trade_leg (num_of_int (price m)) (num_of_int (traded_volume m))
               (is_bid m) (asset_name m) s
        else s)" by simp
  then show ?thesis
    unfolding leg_updates_def by (rule holdings_only_trans) simp
qed

text \<open>Whether or not an update throws, an iteration leaves a book as it was or removes
  the first order with the making order's id from the book of its side.\<close>

lemma trade_leg_outcome:
  obtains (aborted) e t where "trade_leg taking s m = Inl (e, t)" and "holdings_only s t"
  | (completed) t where "trade_leg taking s m = Inr (remove_order m t)" and "holdings_only s t"
proof -
  let ?u1 = "if pcode m = this_pcode s
        then update_holdings (num_of_int (price m)) (num_of_int (traded_volume m))
               (is_bid m) (asset_name m) s
        else Inr s"
  have h1: "holdings_only s (state_of ?u1)" by simp
  show thesis
  proof (cases ?u1)
    case (Inl et)
    then obtain e t where et: "?u1 = Inl (e, t)" by (cases et) auto
    with h1 have "holdings_only s t" by simp
    moreover from et have "trade_leg taking s m = Inl (e, t)"
      unfolding trade_leg_def by simp
    ultimately show thesis by (rule aborted [rotated])
  next
    case (Inr s1)
    with h1 have f1: "holdings_only s s1" by simp
    let ?u2 = "if pcode taking = this_pcode s1
        then update_holdings (num_of_int (price m)) (num_of_int (traded_volume m))
               (is_bid taking) (asset_name taking) s1
        else Inr s1"
    have h2: "holdings_only s1 (state_of ?u2)" by simp
    have tl: "trade_leg taking s m = and_then ?u2 (\<lambda>s2. Inr (remove_order m s2))"
      unfolding trade_leg_def using Inr by simp
    show thesis
    proof (cases ?u2)
      case (Inl et)
      then obtain e t where et: "?u2 = Inl (e, t)" by (cases et) auto
      with h2 have "holdings_only s1 t" by simp
      with f1 have "holdings_only s t" by (rule holdings_only_trans)
      moreover from et tl have "trade_leg taking s m = Inl (e, t)" by simp
      ultimately show thesis by (rule aborted [rotated])
    next
      case (Inr s2)
      with h2 have "holdings_only s1 s2" by simp
      with f1 have "holdings_only s s2" by (rule holdings_only_trans)
      moreover from Inr tl have "trade_leg taking s m = Inr (remove_order m s2)" by simp
      ultimately show thesis by (rule completed [rotated])
    qed
  qed
qed

lemma this_pcode_remove_order_book [simp]: "holdings_only s t \<Longrightarrow> this_pcode (remove_order m t) = this_pcode s"
  by (simp add: holdings_only_def)

lemma subseq_remove_first: "subseq (remove_first i xs) xs"
  by (induction xs) auto

lemma set_remove_first: "set (remove_first i xs) \<subseteq> set xs"
  by (induction xs) auto

lemma distinct_remove_first:
  "distinct (map order_id xs) \<Longrightarrow> distinct (map order_id (remove_first i xs))"
  using set_remove_first [of i] by (induction xs) auto

lemma remove_first_removes:
  "distinct (map order_id xs) \<Longrightarrow> i \<notin> order_id ` set (remove_first i xs)"
  by (induction xs) auto

lemma subseq_book_trade_leg: "subseq (book b (state_of (trade_leg taking s m))) (book b s)"
proof (cases rule: trade_leg_outcome [of taking s m])
  case (aborted e t)
  then show ?thesis by (simp add: book_holdings_only)
next
  case (completed t)
  then show ?thesis
    by (simp add: book_remove_order book_holdings_only subseq_remove_first)
qed

lemma distinct_book_trade_leg:
  assumes "distinct (map order_id (book b s))"
  shows "distinct (map order_id (book b (state_of (trade_leg taking s m))))"
proof (cases rule: trade_leg_outcome [of taking s m])
  case (aborted e t)
  with assms show ?thesis by (simp add: book_holdings_only)
next
  case (completed t)
  with assms show ?thesis
    by (auto simp: book_remove_order book_holdings_only distinct_remove_first)
qed

lemma state_of_trade_legs_Cons:
  "state_of (trade_legs taking (m # ms) s) =
     (case trade_leg taking s m of Inl (e, t) \<Rightarrow> t | Inr t \<Rightarrow> state_of (trade_legs taking ms t))"
  by (cases "trade_leg taking s m") auto

lemma subseq_book_trade_legs: "subseq (book b (state_of (trade_legs taking ms s))) (book b s)"
proof (induction ms arbitrary: s)
  case Nil
  then show ?case by simp
next
  case (Cons m ms)
  show ?case
  proof (cases "trade_leg taking s m")
    case (Inl et)
    then have "state_of (trade_legs taking (m # ms) s) = state_of (trade_leg taking s m)"
      by (cases et) simp
    then show ?thesis by (simp add: subseq_book_trade_leg)
  next
    case (Inr t)
    then have "state_of (trade_legs taking (m # ms) s) = state_of (trade_legs taking ms t)"
      by simp
    moreover have "subseq (book b (state_of (trade_legs taking ms t))) (book b t)"
      by (rule Cons.IH)
    moreover have "subseq (book b t) (book b s)"
      using subseq_book_trade_leg [of b taking s m] Inr by simp
    ultimately show ?thesis by (auto intro: subseq_order.trans)
  qed
qed

lemma book_handle_confirm_trade:
  "book b (state_of (handle_confirm_trade msg s)) =
     book b (state_of (trade_legs (taking_order msg) (making_orders msg) s))"
  by (cases "trade_legs (taking_order msg) (making_orders msg) s")
     (auto simp: handle_confirm_trade_def Let_def dispatchEvent_def book_def)

text \<open>Where the names of the viewer's legs are plain, an iteration completes.\<close>

lemma trade_leg_plain:
  assumes "pcode taking = this_pcode s \<longrightarrow> plain_name (asset_name taking)"
    and "pcode m = this_pcode s \<longrightarrow> plain_name (asset_name m)"
  shows "trade_leg taking s m =
     Inr (remove_order m
       (if pcode taking = this_pcode s
        then on_trade_leg (num_of_int (price m)) (num_of_int (traded_volume m))
               (is_bid taking) (asset_name taking)
               (if pcode m = this_pcode s
                then on_trade_leg (num_of_int (price m)) (num_of_int (traded_volume m))
                       (is_bid m) (asset_name m) s
                else s)
        else (if pcode m = this_pcode s
                then on_trade_leg (num_of_int (price m)) (num_of_int (traded_volume m))
                       (is_bid m) (asset_name m) s
                else s)))"
proof -
  show ?thesis
    using assms unfolding trade_leg_def
    by (simp add: update_holdings_plain)
qed

lemma trade_leg_plain_book:
  assumes "pcode taking = this_pcode s \<longrightarrow> plain_name (asset_name taking)"
    and "pcode m = this_pcode s \<longrightarrow> plain_name (asset_name m)"
  obtains t where "trade_leg taking s m = Inr t" and "this_pcode t = this_pcode s"
    and "\<And>b. book b t = (if b = is_bid m then remove_first (order_id m) (book b s) else book b s)"
proof -
  let ?t0 = "if pcode taking = this_pcode s
        then on_trade_leg (num_of_int (price m)) (num_of_int (traded_volume m))
               (is_bid taking) (asset_name taking)
               (if pcode m = this_pcode s
                then on_trade_leg (num_of_int (price m)) (num_of_int (traded_volume m))
                       (is_bid m) (asset_name m) s
                else s)
        else (if pcode m = this_pcode s
                then on_trade_leg (num_of_int (price m)) (num_of_int (traded_volume m))
                       (is_bid m) (asset_name m) s
                else s)"
  have h: "holdings_only s ?t0"
    by (auto intro: holdings_only_trans [OF on_trade_leg_frame on_trade_leg_frame])
  have "trade_leg taking s m = Inr (remove_order m ?t0)"
    using assms by (rule trade_leg_plain)
  moreover have "this_pcode (remove_order m ?t0) = this_pcode s"
    using h by simp
  moreover have "\<And>b. book b (remove_order m ?t0) =
      (if b = is_bid m then remove_first (order_id m) (book b s) else book b s)"
    using h by (simp add: book_remove_order book_holdings_only)
  ultimately show thesis by (rule that)
qed

lemma trade_legs_plain_book:
  assumes "pcode taking = this_pcode s \<longrightarrow> plain_name (asset_name taking)"
    and "\<forall>m \<in> set ms. pcode m = this_pcode s \<longrightarrow> plain_name (asset_name m)"
  shows "\<exists>t. trade_legs taking ms s = Inr t \<and> this_pcode t = this_pcode s
    \<and> (\<forall>b. book b t =
          foldl (\<lambda>xs m. if is_bid m = b then remove_first (order_id m) xs else xs) (book b s) ms)"
  using assms
proof (induction ms arbitrary: s)
  case Nil
  then show ?case by simp
next
  case (Cons m ms)
  from Cons.prems have pm: "pcode m = this_pcode s \<longrightarrow> plain_name (asset_name m)" by simp
  from trade_leg_plain_book [OF Cons.prems(1) pm]
  obtain t where t: "trade_leg taking s m = Inr t" and pt: "this_pcode t = this_pcode s"
    and bt: "\<And>b. book b t = (if b = is_bid m then remove_first (order_id m) (book b s) else book b s)"
    by blast
  have "pcode taking = this_pcode t \<longrightarrow> plain_name (asset_name taking)"
    and "\<forall>m \<in> set ms. pcode m = this_pcode t \<longrightarrow> plain_name (asset_name m)"
    using Cons.prems pt by simp_all
  from Cons.IH [OF this] obtain u where u: "trade_legs taking ms t = Inr u"
    and pu: "this_pcode u = this_pcode t"
    and bu: "\<forall>b. book b u =
          foldl (\<lambda>xs m. if is_bid m = b then remove_first (order_id m) xs else xs) (book b t) ms"
    by blast
  have "trade_legs taking (m # ms) s = Inr u" using t u by simp
  moreover have "this_pcode u = this_pcode s" using pu pt by simp
  moreover have "\<forall>b. book b u =
          foldl (\<lambda>xs m. if is_bid m = b then remove_first (order_id m) xs else xs) (book b s) (m # ms)"
    using bu bt by auto
  ultimately show ?case by blast
qed

lemma foldl_remove_first_removes:
  "distinct (map order_id xs) \<Longrightarrow> m \<in> set ms \<Longrightarrow>
   order_id m \<notin> order_id ` set
     (foldl (\<lambda>xs m'. if is_bid m' = is_bid m then remove_first (order_id m') xs else xs) xs ms)"
proof (induction ms arbitrary: xs)
  case Nil
  then show ?case by simp
next
  case (Cons a ms)
  let ?f = "\<lambda>xs m'. if is_bid m' = is_bid m then remove_first (order_id m') xs else xs"
  have d: "distinct (map order_id (?f xs a))"
    using Cons.prems(1) by (simp add: distinct_remove_first)
  show ?case
  proof (cases "m \<in> set ms")
    case True
    from Cons.IH [OF d True] show ?thesis by simp
  next
    case False
    with Cons.prems(2) have "a = m" by simp
    then have gone: "order_id m \<notin> order_id ` set (?f xs a)"
      using Cons.prems(1) by (simp add: remove_first_removes)
    have shrink: "\<And>ys. set (foldl ?f ys ms) \<subseteq> set ys"
    proof (induction ms)
      case Nil
      show ?case by simp
    next
      case (Cons b bs)
      fix ys
      have "set (foldl ?f (?f ys b) bs) \<subseteq> set (?f ys b)" by (rule Cons.IH)
      also have "\<dots> \<subseteq> set ys" using set_remove_first [of "order_id b" ys] by simp
      finally show "set (foldl ?f ys (b # bs)) \<subseteq> set ys" by simp
    qed
    from gone shrink [of "?f xs a"] show ?thesis by auto
  qed
qed

lemma trade_leg_completed_book:
  assumes "trade_leg taking s m = Inr t"
  shows "book b t = (if b = is_bid m then remove_first (order_id m) (book b s) else book b s)"
proof (cases rule: trade_leg_outcome [of taking s m])
  case (aborted e t')
  with assms show ?thesis by simp
next
  case (completed t')
  with assms have "t = remove_order m t'" by simp
  with completed(2) show ?thesis
    by (simp add: book_remove_order book_holdings_only)
qed

lemma trade_legs_completed_book:
  "trade_legs taking ms s = Inr t \<Longrightarrow>
   book b t = foldl (\<lambda>xs m. if is_bid m = b then remove_first (order_id m) xs else xs) (book b s) ms"
proof (induction ms arbitrary: s)
  case Nil
  then show ?case by simp
next
  case (Cons m ms)
  from Cons.prems obtain u where u: "trade_leg taking s m = Inr u"
    and r: "trade_legs taking ms u = Inr t"
    by (cases "trade_leg taking s m") auto
  from Cons.IH [OF r] trade_leg_completed_book [OF u, of b] show ?case
    by auto
qed

lemma handle_confirm_trade_completed:
  assumes "handle_confirm_trade msg s = Inr t"
  obtains u where "trade_legs (taking_order msg) (making_orders msg) s = Inr u"
    and "\<And>b. book b t = book b u"
proof -
  from assms obtain u where u: "trade_legs (taking_order msg) (making_orders msg) s = Inr u"
    by (cases "trade_legs (taking_order msg) (making_orders msg) s")
       (auto simp: handle_confirm_trade_def)
  have "\<And>b. book b t = book b u"
    using book_handle_confirm_trade [of _ msg s] assms u by simp
  with u show thesis by (rule that)
qed

lemma on_message_confirm_trade [simp]:
  "on_message (confirm_trade msg) s = handle_confirm_trade msg s"
  by (simp add: on_message_def confirm_trade_def message_handlers_def)

lemma handle_confirm_trade_plain:
  assumes "viewer_legs_plain s msg"
  shows "\<exists>t. handle_confirm_trade msg s = Inr t"
proof -
  from assms have "pcode (taking_order msg) = this_pcode s \<longrightarrow> plain_name (asset_name (taking_order msg))"
    and "\<forall>m \<in> set (making_orders msg). pcode m = this_pcode s \<longrightarrow> plain_name (asset_name m)"
    by (simp_all add: viewer_legs_plain_def)
  from trade_legs_plain_book [OF this] obtain u
    where "trade_legs (taking_order msg) (making_orders msg) s = Inr u" by blast
  then show ?thesis by (simp add: handle_confirm_trade_def Let_def)
qed

text \<open>
  C8, as the code has it. Each book after a \<open>confirm_trade\<close> is a subsequence of the
  book before it, so nothing is inserted for an unfilled remainder. When the handler
  returns, and it does when the asset names of the viewer's legs are plain, each book
  is the book before with, for each making order of that side in sequence, the first order
  of the making order's id removed; neither \<open>volume\<close> nor \<open>traded_volume\<close> has a part
  in it. So when the handler returns in a state whose books hold each \<open>order_id\<close> at
  most once, no order with the id of a making order is left in the book selected by its
  \<open>is_bid\<close> flag.
\<close>

theorem trade_removes_each_maker_entirely:
  "subseq (bids (process s (confirm_trade msg))) (bids s)
   \<and> subseq (asks (process s (confirm_trade msg))) (asks s)
   \<and> (viewer_legs_plain s msg \<longrightarrow>
        on_message (confirm_trade msg) s = Inr (process s (confirm_trade msg)))
   \<and> (on_message (confirm_trade msg) s = Inr (process s (confirm_trade msg)) \<longrightarrow>
        bids (process s (confirm_trade msg)) =
          foldl (\<lambda>xs m. if is_bid m then remove_first (order_id m) xs else xs) (bids s)
            (making_orders msg)
        \<and> asks (process s (confirm_trade msg)) =
          foldl (\<lambda>xs m. if \<not> is_bid m then remove_first (order_id m) xs else xs) (asks s)
            (making_orders msg))
   \<and> (on_message (confirm_trade msg) s = Inr (process s (confirm_trade msg))
        \<and> distinct (map order_id (bids s)) \<and> distinct (map order_id (asks s))
        \<and> m \<in> set (making_orders msg) \<longrightarrow>
        order_id m \<notin> order_id ` set (book (is_bid m) (process s (confirm_trade msg))))"
proof (intro conjI impI)
  show "subseq (bids (process s (confirm_trade msg))) (bids s)"
    using subseq_book_trade_legs [of True "taking_order msg" "making_orders msg" s]
      book_handle_confirm_trade [of True msg s]
    by (simp add: book_def)
  show "subseq (asks (process s (confirm_trade msg))) (asks s)"
    using subseq_book_trade_legs [of False "taking_order msg" "making_orders msg" s]
      book_handle_confirm_trade [of False msg s]
    by (simp add: book_def)
next
  assume "viewer_legs_plain s msg"
  from handle_confirm_trade_plain [OF this]
  show "on_message (confirm_trade msg) s = Inr (process s (confirm_trade msg))"
    by auto
next
  assume c: "on_message (confirm_trade msg) s = Inr (process s (confirm_trade msg))"
  then have h: "handle_confirm_trade msg s = Inr (process s (confirm_trade msg))" by simp
  from handle_confirm_trade_completed [OF h] obtain u
    where u: "trade_legs (taking_order msg) (making_orders msg) s = Inr u"
      and b: "\<And>b. book b (process s (confirm_trade msg)) = book b u"
    by blast
  show "bids (process s (confirm_trade msg)) =
          foldl (\<lambda>xs m. if is_bid m then remove_first (order_id m) xs else xs) (bids s)
            (making_orders msg)"
    using b [of True] trade_legs_completed_book [OF u, of True] by (simp add: book_def)
  show "asks (process s (confirm_trade msg)) =
          foldl (\<lambda>xs m. if \<not> is_bid m then remove_first (order_id m) xs else xs) (asks s)
            (making_orders msg)"
    using b [of False] trade_legs_completed_book [OF u, of False] by (simp add: book_def)
next
  assume a: "on_message (confirm_trade msg) s = Inr (process s (confirm_trade msg))
        \<and> distinct (map order_id (bids s)) \<and> distinct (map order_id (asks s))
        \<and> m \<in> set (making_orders msg)"
  then have h: "handle_confirm_trade msg s = Inr (process s (confirm_trade msg))" by simp
  from handle_confirm_trade_completed [OF h] obtain u
    where u: "trade_legs (taking_order msg) (making_orders msg) s = Inr u"
      and b: "\<And>b. book b (process s (confirm_trade msg)) = book b u"
    by blast
  from a have "distinct (map order_id (book (is_bid m) s))" by (simp add: book_def)
  from foldl_remove_first_removes [OF this, of m "making_orders msg"] a
  show "order_id m \<notin> order_id ` set (book (is_bid m) (process s (confirm_trade msg)))"
    unfolding b trade_legs_completed_book [OF u] by simp
qed

lemma plain_name_A: "plain_name ''A''"
  by (simp add: plain_name_def object_prototype_names_def)

theorem trade_removes_each_maker_entirely_witness:
  "viewer_legs_plain (resting_state ''P1'') partial_fill
   \<and> on_message (confirm_trade partial_fill) (resting_state ''P1'') =
       Inr (process (resting_state ''P1'') (confirm_trade partial_fill))
   \<and> distinct (map order_id (bids (resting_state ''P1'')))
   \<and> distinct (map order_id (asks (resting_state ''P1'')))
   \<and> hd (making_orders partial_fill) \<in> set (making_orders partial_fill)
   \<and> traded_volume (hd (making_orders partial_fill)) < volume (hd (asks (resting_state ''P1'')))
   \<and> order_id (hd (making_orders partial_fill)) = order_id (hd (asks (resting_state ''P1'')))
   \<and> order_id (hd (making_orders partial_fill)) \<notin>
       order_id ` set (book (is_bid (hd (making_orders partial_fill)))
         (process (resting_state ''P1'') (confirm_trade partial_fill)))
   \<and> asks (process (resting_state ''P1'') (confirm_trade partial_fill)) = [mk_order 2 False 11 2 ''P3'']
   \<and> bids (process (resting_state ''P1'') (confirm_trade partial_fill)) = [mk_order 3 True 4 0.5 ''P3'']"
proof -
  let ?s = "resting_state ''P1''"
  let ?t = "process ?s (confirm_trade partial_fill)"
  note main = trade_removes_each_maker_entirely [of ?s partial_fill "hd (making_orders partial_fill)"]
  have v: "viewer_legs_plain ?s partial_fill"
    by (simp add: viewer_legs_plain_def resting_state_def partial_fill_def)
  from main v have c: "on_message (confirm_trade partial_fill) ?s = Inr ?t" by blast
  have a: "distinct (map order_id (bids ?s))" and b: "distinct (map order_id (asks ?s))"
    and m: "hd (making_orders partial_fill) \<in> set (making_orders partial_fill)"
    and pv: "traded_volume (hd (making_orders partial_fill)) < volume (hd (asks ?s))"
    and oi: "order_id (hd (making_orders partial_fill)) = order_id (hd (asks ?s))"
    by (simp_all add: resting_state_def partial_fill_def mk_order_def)
  from main c a b m have gone: "order_id (hd (making_orders partial_fill)) \<notin>
       order_id ` set (book (is_bid (hd (making_orders partial_fill))) ?t)"
    by blast
  from main c have "asks ?t =
      foldl (\<lambda>xs m. if \<not> is_bid m then remove_first (order_id m) xs else xs) (asks ?s)
        (making_orders partial_fill)"
    and "bids ?t =
      foldl (\<lambda>xs m. if is_bid m then remove_first (order_id m) xs else xs) (bids ?s)
        (making_orders partial_fill)"
    by blast+
  then have ab: "asks ?t = [mk_order 2 False 11 2 ''P3'']"
    and bb: "bids ?t = [mk_order 3 True 4 0.5 ''P3'']"
    by (simp_all add: resting_state_def partial_fill_def mk_order_def)
  from v c a b m pv oi gone ab bb show ?thesis by blast
qed

lemma dotted_update_throws:
  "availableAssetsDict s = [''A'' \<mapsto> Num 5] \<Longrightarrow>
   update_subproperty AvailableAssetsDict ''A.B'' a s = Inl (TypeError, s)"
  by (simp add: update_subproperty_def Let_def number_prototype_names_def
        object_prototype_names_def)

text \<open>
  C8 as stated fails for a making order of the viewer on an asset named \<open>A.B\<close> while
  the dictionaries hold a number under \<open>A\<close>: the holdings update, which comes before
  the removal in the loop, throws, and the making order is still in the ask book.
\<close>

theorem trade_throws_before_removing_maker:
  "hd (making_orders (dotted_fill ''P1'')) \<in> set (making_orders (dotted_fill ''P1''))
   \<and> on_message (confirm_trade (dotted_fill ''P1'')) (dotted_resting_state ''P1'') =
       Inl (TypeError, dotted_resting_state ''P1'')
   \<and> order_id (hd (making_orders (dotted_fill ''P1''))) \<in>
       order_id ` set (book (is_bid (hd (making_orders (dotted_fill ''P1''))))
         (process (dotted_resting_state ''P1'') (confirm_trade (dotted_fill ''P1''))))"
proof -
  let ?s = "dotted_resting_state ''P1''"
  have u: "update_holdings (num_of_int 10) (num_of_int 5) False ''A.B'' ?s = Inl (TypeError, ?s)"
    unfolding update_holdings_def
    by (simp add: dotted_update_throws dotted_resting_state_def)
  have "trade_leg (taking_order (dotted_fill ''P1'')) ?s (hd (making_orders (dotted_fill ''P1'')))
      = Inl (TypeError, ?s)"
    unfolding trade_leg_def using u
    by (simp add: dotted_fill_def dotted_resting_state_def)
  then have "handle_confirm_trade (dotted_fill ''P1'') ?s = Inl (TypeError, ?s)"
    by (simp add: handle_confirm_trade_def dotted_fill_def)
  then have o: "on_message (confirm_trade (dotted_fill ''P1'')) ?s = Inl (TypeError, ?s)"
    by simp
  then have "process ?s (confirm_trade (dotted_fill ''P1'')) = ?s"
    by (simp add: process_def)
  then show ?thesis using o
    by (simp add: dotted_fill_def dotted_resting_state_def book_def)
qed

section \<open>Holdings after a trade\<close>

lemma holdings_of_remove_order [simp]: "holdings_of (remove_order ord s) = holdings_of s"
  by (simp add: holdings_of_def)

lemma holdings_of_on_trade_leg_cong:
  "holdings_of s = holdings_of s' \<Longrightarrow>
   holdings_of (on_trade_leg p v b a s) = holdings_of (on_trade_leg p v b a s')"
  by (simp add: holdings_of_def on_trade_leg_def)

lemma leg_updates_cong:
  assumes "holdings_of s = holdings_of s'" and "this_pcode s = this_pcode s'"
  shows "holdings_of (leg_updates taking s m) = holdings_of (leg_updates taking s' m)"
  unfolding leg_updates_def using assms
  by (auto intro!: holdings_of_on_trade_leg_cong)

lemma this_pcode_leg_updates [simp]: "this_pcode (leg_updates taking s m) = this_pcode s"
  by (simp add: leg_updates_def)

lemma trade_leg_is_leg_updates:
  assumes "pcode taking = this_pcode s" and "plain_name (asset_name taking)"
    and "pcode m = this_pcode s \<longrightarrow> plain_name (asset_name m)"
  shows "trade_leg taking s m = Inr (remove_order m (leg_updates taking s m))"
  using assms trade_leg_plain [of taking s m] by (simp add: leg_updates_def)

lemma trade_legs_simulate:
  assumes "pcode taking = this_pcode s" and "plain_name (asset_name taking)"
    and "\<forall>m \<in> set ms. pcode m = this_pcode s \<longrightarrow> plain_name (asset_name m)"
    and "holdings_of s = holdings_of s'" and "this_pcode s = this_pcode s'"
  shows "\<exists>t. trade_legs taking ms s = Inr t
    \<and> holdings_of t = holdings_of (foldl (leg_updates taking) s' ms)"
  using assms
proof (induction ms arbitrary: s s')
  case Nil
  then show ?case by simp
next
  case (Cons m ms)
  let ?u = "remove_order m (leg_updates taking s m)"
  from Cons.prems have pm: "pcode m = this_pcode s \<longrightarrow> plain_name (asset_name m)" by simp
  have tl: "trade_leg taking s m = Inr ?u"
    using Cons.prems(1,2) pm by (rule trade_leg_is_leg_updates)
  have pu: "this_pcode ?u = this_pcode s" by simp
  have hu: "holdings_of ?u = holdings_of (leg_updates taking s' m)"
    using leg_updates_cong [OF Cons.prems(4,5)] by simp
  have "\<exists>t. trade_legs taking ms ?u = Inr t
    \<and> holdings_of t = holdings_of (foldl (leg_updates taking) (leg_updates taking s' m) ms)"
    using Cons.prems pu hu by (intro Cons.IH) simp_all
  then show ?case using tl by simp
qed

text \<open>
  C7, as the code has it. For a \<open>confirm_trade\<close> whose taking order is the viewer's and
  in which the asset names of the viewer's legs are plain, the handler returns and the
  holdings after the event are those obtained by going through the making orders in
  sequence and applying, for each, the maker's update when the viewer owns that making
  order and then the taker's update with that making order's price and traded volume and
  the taking order's \<open>is_bid\<close> and \<open>asset_name\<close>.
\<close>

theorem taker_updates_once_per_making_order:
  assumes "pcode (taking_order msg) = this_pcode s"
    and "viewer_legs_plain s msg"
  shows "on_message (confirm_trade msg) s = Inr (process s (confirm_trade msg))
    \<and> holdings_of (process s (confirm_trade msg))
      = holdings_of (foldl (leg_updates (taking_order msg)) s (making_orders msg))"
proof -
  from assms have pt: "plain_name (asset_name (taking_order msg))"
    and pm: "\<forall>m \<in> set (making_orders msg). pcode m = this_pcode s \<longrightarrow> plain_name (asset_name m)"
    by (simp_all add: viewer_legs_plain_def)
  from trade_legs_simulate [OF assms(1) pt pm refl refl]
  obtain t where t: "trade_legs (taking_order msg) (making_orders msg) s = Inr t"
    and h: "holdings_of t = holdings_of (foldl (leg_updates (taking_order msg)) s (making_orders msg))"
    by blast
  from t have "\<exists>u. handle_confirm_trade msg s = Inr u \<and> holdings_of u = holdings_of t"
    by (simp add: handle_confirm_trade_def Let_def dispatchEvent_def holdings_of_def)
  with h show ?thesis by auto
qed

theorem taker_updates_once_per_making_order_witness:
  "pcode (taking_order own_two_legs) = this_pcode (funded_state ''P1'')
   \<and> viewer_legs_plain (funded_state ''P1'') own_two_legs
   \<and> on_message (confirm_trade own_two_legs) (funded_state ''P1'') =
       Inr (process (funded_state ''P1'') (confirm_trade own_two_legs))
   \<and> holdings_of (process (funded_state ''P1'') (confirm_trade own_two_legs))
       = (Num 80, Num 80, [''A'' \<mapsto> Num 7], [''A'' \<mapsto> Num 7])"
proof -
  let ?s = "funded_state ''P1''"
  have a: "pcode (taking_order own_two_legs) = this_pcode ?s"
    by (simp add: own_two_legs_def funded_state_def)
  have v: "viewer_legs_plain ?s own_two_legs"
    by (simp add: viewer_legs_plain_def own_two_legs_def funded_state_def plain_name_A)
  have n: "num_of_int 10 = Num 10" "num_of_int 11 = Num 11" "num_of_int 2 = Num 2"
    "num_of_int 1 = Num 1"
    by (simp_all add: num_of_int_def)
  have b: "holdings_of (foldl (leg_updates (taking_order own_two_legs)) ?s
             (making_orders own_two_legs))
      = (Num 80, Num 80, [''A'' \<mapsto> Num 7], [''A'' \<mapsto> Num 7])"
    by (simp add: own_two_legs_def funded_state_def leg_updates_def on_trade_leg_def
          holdings_of_def n js_minus_def)
  from taker_updates_once_per_making_order [OF a v] a v b show ?thesis
    by simp
qed

text \<open>
  C7 as stated fails for a taking order of the viewer on an asset named \<open>A.B\<close> while
  the dictionaries hold a number under \<open>A\<close>: the first holdings update throws, the loop
  over the making orders ends there, and the holdings are as before the trade.
\<close>

theorem taker_update_throws_at_first_leg:
  "pcode (taking_order dotted_take) = this_pcode (funded_state ''P1'')
   \<and> on_message (confirm_trade dotted_take) (funded_state ''P1'') =
       Inl (TypeError, funded_state ''P1'')
   \<and> holdings_of (process (funded_state ''P1'') (confirm_trade dotted_take))
       = holdings_of (funded_state ''P1'')"
proof -
  let ?s = "funded_state ''P1''"
  have u: "update_holdings (num_of_int 10) (num_of_int 2) True ''A.B'' ?s = Inl (TypeError, ?s)"
    unfolding update_holdings_def
    by (simp add: dotted_update_throws funded_state_def)
  have "trade_leg (taking_order dotted_take) ?s (hd (making_orders dotted_take))
      = Inl (TypeError, ?s)"
    unfolding trade_leg_def using u
    by (simp add: dotted_take_def funded_state_def)
  then have "handle_confirm_trade dotted_take ?s = Inl (TypeError, ?s)"
    by (simp add: handle_confirm_trade_def dotted_take_def)
  then have o: "on_message (confirm_trade dotted_take) ?s = Inl (TypeError, ?s)"
    by simp
  then have "process ?s (confirm_trade dotted_take) = ?s"
    by (simp add: process_def)
  then show ?thesis using o
    by (simp add: dotted_take_def funded_state_def)
qed

section \<open>Uniqueness of order ids\<close>

lemma subseq_distinct: "subseq xs ys \<Longrightarrow> distinct ys \<Longrightarrow> distinct xs"
  by (induction rule: list_emb.induct) (auto dest: list_emb_set)

lemma distinct_ids_shrink:
  assumes "subseq (bids s') (bids s)" and "subseq (asks s') (asks s)" and "distinct (ids s)"
  shows "distinct (ids s')"
proof -
  have "subseq (bids s' @ asks s') (bids s @ asks s)"
    using assms(1,2) by (rule list_emb_append_mono)
  then have "subseq (ids s') (ids s)"
    unfolding ids_def by (rule subseq_map)
  then show ?thesis using assms(3) by (rule subseq_distinct)
qed

lemma distinct_map_insert_middle:
  "distinct (map f (takeWhile P xs @ a # dropWhile P xs)) = (f a \<notin> f ` set xs \<and> distinct (map f xs))"
proof -
  have "\<And>A B. distinct (map f (A @ a # B)) = (f a \<notin> f ` set (A @ B) \<and> distinct (map f (A @ B)))"
    by auto
  from this [of "takeWhile P xs" "dropWhile P xs"] show ?thesis
    by (simp only: takeWhile_dropWhile_id)
qed

lemma set_insert_middle: "set (takeWhile P xs @ a # dropWhile P xs) = insert a (set xs)"
proof -
  have "\<And>A B. set (A @ a # B) = insert a (set (A @ B))"
    by auto
  from this [of "takeWhile P xs" "dropWhile P xs"] show ?thesis
    by (simp only: takeWhile_dropWhile_id)
qed

lemma distinct_ids_enter:
  assumes "distinct (ids s)" and "order_id ord \<notin> set (ids s)"
  shows "distinct (ids (state_of (handle_confirm_enter ord s)))"
proof (cases "is_bid ord")
  case True
  then have "ids (state_of (handle_confirm_enter ord s)) =
      map order_id (bids (insert_bid ord s)) @ map order_id (asks s)"
    by (simp add: ids_def bids_handle_confirm_enter asks_handle_confirm_enter)
  moreover have "distinct (map order_id (bids (insert_bid ord s)))"
    unfolding bids_insert_bid distinct_map_insert_middle using assms by (auto simp: ids_def)
  moreover have "order_id ` set (bids (insert_bid ord s)) = insert (order_id ord) (order_id ` set (bids s))"
    unfolding bids_insert_bid set_insert_middle by simp
  ultimately show ?thesis using assms by (auto simp: ids_def)
next
  case False
  then have "ids (state_of (handle_confirm_enter ord s)) =
      map order_id (bids s) @ map order_id (asks (state_of (insert_ask ord s)))"
    by (simp add: ids_def bids_handle_confirm_enter asks_handle_confirm_enter)
  moreover have "distinct (map order_id (asks (state_of (insert_ask ord s))))"
    unfolding asks_insert_ask distinct_map_insert_middle using assms by (auto simp: ids_def)
  moreover have "order_id ` set (asks (state_of (insert_ask ord s))) =
      insert (order_id ord) (order_id ` set (asks s))"
    unfolding asks_insert_ask set_insert_middle by simp
  ultimately show ?thesis using assms by (auto simp: ids_def)
qed

lemma book_handle_confirm_cancel:
  "book b (state_of (handle_confirm_cancel ord s)) = book b (remove_order ord s)"
proof -
  let ?s1 = "remove_order ord s"
  let ?r = "if pcode ord = this_pcode ?s1 then
              (if is_bid ord
               then Inr (?s1\<lparr>availableCash :=
                              js_plus (availableCash ?s1)
                                (js_times (num_of_int (price ord)) (num_of_int (volume ord)))\<rparr>)
               else update_subproperty AvailableAssetsDict (asset_name ord)
                      (num_of_int (volume ord)) ?s1)
            else Inr ?s1"
  have h: "handle_confirm_cancel ord s =
      and_then ?r (\<lambda>s2. Inr (dispatchEvent (ConfirmOrderCancel ord) s2))"
    unfolding handle_confirm_cancel_def Let_def ..
  have "bids (state_of ?r) = bids ?s1" "asks (state_of ?r) = asks ?s1"
    by simp_all
  then show ?thesis
    unfolding h book_def by (simp only: then_dispatch_frame)
qed

lemma book_handle_error: "book b (handle_error e s) = book b s"
  by (simp add: handle_error_def dispatchEvent_def book_def)

lemma subseq_book_call_handler:
  "h \<noteq> Handle_confirm_enter \<Longrightarrow> subseq (book b (state_of (call_handler h p s))) (book b s)"
proof (induction h p s rule: call_handler.induct)
  case (1 ord s)
  then show ?case by simp
next
  case (2 msg s)
  then show ?case by (simp add: book_handle_confirm_trade subseq_book_trade_legs)
next
  case (3 ord s)
  then show ?case
    by (simp add: book_handle_confirm_cancel book_remove_order subseq_remove_first)
next
  case (4 msg s)
  then show ?case by (simp add: book_handle_error)
next
  case (5 name p s)
  then show ?case by simp
qed simp_all

lemma subseq_book_process:
  assumes "msg_type msg \<noteq> ''confirm_enter''"
  shows "subseq (book b (process s msg)) (book b s)"
proof (cases "message_handlers (msg_type msg)")
  case None
  then show ?thesis by (simp add: process_def on_message_def)
next
  case (Some h)
  with assms have "h \<noteq> Handle_confirm_enter"
    by (auto simp: message_handlers_def split: if_splits)
  from subseq_book_call_handler [OF this] Some show ?thesis
    by (simp add: process_def on_message_def)
qed

lemma distinct_ids_process:
  assumes "distinct (ids s)" and "admissible s msg"
  shows "distinct (ids (process s msg))"
proof (cases "msg_type msg = ''confirm_enter''")
  case True
  with assms(2) obtain ord where p: "msg_payload msg = POrder ord"
    and f: "order_id ord \<notin> set (ids s)"
    by (auto simp: admissible_def split: payload.splits)
  from True p have "process s msg = state_of (handle_confirm_enter ord s)"
    by (simp add: process_def on_message_def message_handlers_def)
  with distinct_ids_enter [OF assms(1) f] show ?thesis by simp
next
  case False
  have "subseq (bids (process s msg)) (bids s)"
    using subseq_book_process [OF False, of True s] by (simp add: book_def)
  moreover have "subseq (asks (process s msg)) (asks s)"
    using subseq_book_process [OF False, of False s] by (simp add: book_def)
  ultimately show ?thesis using assms(1) by (rule distinct_ids_shrink)
qed

lemma distinct_ids_run:
  "distinct (ids s) \<Longrightarrow> stream_ok s msgs \<Longrightarrow> distinct (ids (run s msgs))"
proof (induction msgs arbitrary: s)
  case Nil
  then show ?case by (simp add: run_def)
next
  case (Cons m msgs)
  from Cons.prems have "distinct (ids (process s m))" and "stream_ok (process s m) msgs"
    by (simp_all add: distinct_ids_process)
  from Cons.IH [OF this] show ?case by (simp add: run_def)
qed

lemma stream_ok_take: "stream_ok s msgs \<Longrightarrow> stream_ok s (take n msgs)"
proof (induction msgs arbitrary: s n)
  case Nil
  then show ?case by simp
next
  case (Cons m msgs)
  then show ?case by (cases n) simp_all
qed

lemma admissible_confirm_enter: "admissible s (confirm_enter ord) = (order_id ord \<notin> set (ids s))"
  by (simp add: admissible_def confirm_enter_def)

lemma admissible_confirm_cancel: "admissible s (confirm_cancel ord)"
  by (simp add: admissible_def confirm_cancel_def)

lemma admissible_confirm_trade: "admissible s (confirm_trade t)"
  by (simp add: admissible_def confirm_trade_def)

lemma books_handle_confirm_cancel:
  "bids (state_of (handle_confirm_cancel ord s)) =
     (if is_bid ord then remove_first (order_id ord) (bids s) else bids s)"
  "asks (state_of (handle_confirm_cancel ord s)) =
     (if is_bid ord then asks s else remove_first (order_id ord) (asks s))"
  using book_handle_confirm_cancel [of True ord s] book_handle_confirm_cancel [of False ord s]
    book_remove_order [of True ord s] book_remove_order [of False ord s]
  by (auto simp: book_def)

text \<open>
  C9. From a state in which each \<open>order_id\<close> appears at most once across the two
  books, along every stream of events in which each \<open>confirm_enter\<close> carries an id
  that is resident in neither book when it is handled, each \<open>order_id\<close> appears at
  most once across the two books after every processed event.
\<close>

theorem order_ids_stay_unique:
  "distinct (ids s) \<and> stream_ok s msgs \<longrightarrow>
     (\<forall>n \<le> length msgs. distinct (ids (run s (take n msgs))))"
  by (simp add: distinct_ids_run stream_ok_take)

theorem order_ids_stay_unique_witness:
  "distinct (ids (initial_state ''P1''))
   \<and> stream_ok (initial_state ''P1'') sample_stream
   \<and> (4::nat) \<le> length sample_stream
   \<and> distinct (ids (run (initial_state ''P1'') (take 4 sample_stream)))
   \<and> ids (run (initial_state ''P1'') sample_stream) = [1, 2]"
proof -
  have a: "distinct (ids (initial_state ''P1''))"
    by (simp add: ids_def initial_state_def)
  have b: "stream_ok (initial_state ''P1'') sample_stream"
    by (simp add: sample_stream_def admissible_confirm_enter admissible_confirm_cancel
          ids_def bids_handle_confirm_enter asks_handle_confirm_enter bids_insert_bid
          asks_insert_ask books_handle_confirm_cancel initial_state_def mk_order_def)
  have c: "(4::nat) \<le> length sample_stream"
    by (simp add: sample_stream_def)
  have d: "ids (run (initial_state ''P1'') sample_stream) = [1, 2]"
    by (simp add: sample_stream_def run_def
          ids_def bids_handle_confirm_enter asks_handle_confirm_enter bids_insert_bid
          asks_insert_ask books_handle_confirm_cancel initial_state_def mk_order_def)
  from order_ids_stay_unique [rule_format, OF conjI [OF a b] c] a b c d
  show ?thesis by simp
qed

end
